theory Spec2Isabelle
  imports Main "HOL-Library.Word"
begin

section \<open>Data model of the region-tracing engine (utrace/proc.go)\<close>

type_synonym addr = "64 word"
type_synonym byte = "8 word"

text \<open>The trap opcode: \<^verbatim>\<open>interrupt = []byte{0xCC}\<close>.\<close>

definition interrupt :: "byte list" where
  "interrupt = [0xCC]"

text \<open>
  The error values of the engine. \<^verbatim>\<open>ErrInvalidBreakpoint\<close> is the package variable of
  proc.go, \<open>InvalidState\<close> is \<^verbatim>\<open>errors.New("invalid state")\<close>. The remaining ones come from
  collaborators: the failure kinds of the tracer handle, the failure of a region's End
  function and the failure of the PIE-offset capability.
\<close>

datatype tracer_error = NotTraced | MemoryAccess | RegisterAccess | SyscallInterrupted

datatype error =
    ErrInvalidBreakpoint
  | InvalidState
  | TracerError tracer_error
  | RegionEndUnresolved
  | PieOffsetUnresolved

text \<open>
  \<^verbatim>\<open>unix.PtraceRegs\<close>: only the instruction pointer and the stack pointer are read or
  written by the engine. The zero value of the struct has both fields 0.
\<close>

record PtraceRegs =
  Rip :: "64 word"
  Rsp :: "64 word"

definition zeroRegs :: PtraceRegs where
  "zeroRegs = \<lparr>Rip = 0, Rsp = 0\<rparr>"

subsection \<open>The tracer handle\<close>

text \<open>
  Modelled from the spec: the package \<^verbatim>\<open>utrace/ptrace\<close> (type \<^verbatim>\<open>Tracer\<close> with
  \<^verbatim>\<open>PeekData\<close>, \<^verbatim>\<open>PokeData\<close>, \<^verbatim>\<open>GetRegs\<close>, \<^verbatim>\<open>SetRegs\<close>) is not part of the
  sources at hand. Following section 4.1 of the specification, the handle reads and writes
  the tracee's memory and its register file, and every operation may fail with one of the
  four tracer error kinds. The tracee is a byte-addressed memory and a register file. The
  field \<open>faults\<close> scripts the outcome of the operations still to come (the head decides
  the next operation, \<open>None\<close> or an exhausted script mean success), and \<open>issued\<close> records
  every operation issued so far, in order. A failed operation leaves memory, registers and
  the caller's buffer as they were.
\<close>

datatype tracer_op =
    OpPeek addr nat
  | OpPoke addr "byte list"
  | OpGetRegs
  | OpSetRegs PtraceRegs

record Tracer =
  mem :: "addr \<Rightarrow> byte"
  regs :: PtraceRegs
  faults :: "tracer_error option list"
  issued :: "tracer_op list"

definition next_fault :: "Tracer \<Rightarrow> tracer_error option" where
  "next_fault t = (case faults t of [] \<Rightarrow> None | f # _ \<Rightarrow> f)"

definition issue :: "tracer_op \<Rightarrow> Tracer \<Rightarrow> Tracer" where
  "issue op t = t\<lparr>faults := drop 1 (faults t), issued := issued t @ [op]\<rparr>"

definition read_bytes :: "(addr \<Rightarrow> byte) \<Rightarrow> addr \<Rightarrow> nat \<Rightarrow> byte list" where
  "read_bytes m a n = map (\<lambda>i. m (a + of_nat i)) [0..<n]"

fun write_bytes :: "(addr \<Rightarrow> byte) \<Rightarrow> addr \<Rightarrow> byte list \<Rightarrow> (addr \<Rightarrow> byte)" where
  "write_bytes m a [] = m"
| "write_bytes m a (b # bs) = write_bytes (m(a := b)) (a + 1) bs"

text \<open>
  Modelled from the spec: \<^verbatim>\<open>PeekData(addr, buf)\<close> of the absent tracer package, the
  operation \<open>peek(addr, len)\<close> of section 4.1. It fills a buffer of \<open>n\<close> bytes (all zero
  when freshly made) from the tracee's memory, or fails.
\<close>

definition PeekData :: "Tracer \<Rightarrow> addr \<Rightarrow> nat \<Rightarrow> (byte list \<times> error option) \<times> Tracer" where
  "PeekData t a n =
     (case next_fault t of
        Some e \<Rightarrow> ((replicate n 0, Some (TracerError e)), issue (OpPeek a n) t)
      | None \<Rightarrow> ((read_bytes (mem t) a n, None), issue (OpPeek a n) t))"

text \<open>
  Modelled from the spec: \<^verbatim>\<open>PokeData(addr, data)\<close> of the absent tracer package, the
  operation \<open>poke(addr, bytes)\<close> of section 4.1. It writes the bytes to the tracee's
  memory, or fails.
\<close>

definition PokeData :: "Tracer \<Rightarrow> addr \<Rightarrow> byte list \<Rightarrow> error option \<times> Tracer" where
  "PokeData t a bs =
     (case next_fault t of
        Some e \<Rightarrow> (Some (TracerError e), issue (OpPoke a bs) t)
      | None \<Rightarrow> (None, (issue (OpPoke a bs) t)\<lparr>mem := write_bytes (mem t) a bs\<rparr>))"

text \<open>
  Modelled from the spec: \<^verbatim>\<open>GetRegs(&regs)\<close> and \<^verbatim>\<open>SetRegs(&regs)\<close> of the absent
  tracer package, the whole-file register operations \<open>get_regs\<close> and \<open>set_regs\<close> of
  section 4.1. \<open>GetRegs\<close> overwrites the caller's struct \<open>r0\<close> when it succeeds.
\<close>

definition GetRegs :: "Tracer \<Rightarrow> PtraceRegs \<Rightarrow> (PtraceRegs \<times> error option) \<times> Tracer" where
  "GetRegs t r0 =
     (case next_fault t of
        Some e \<Rightarrow> ((r0, Some (TracerError e)), issue OpGetRegs t)
      | None \<Rightarrow> ((regs t, None), issue OpGetRegs t))"

definition SetRegs :: "Tracer \<Rightarrow> PtraceRegs \<Rightarrow> error option \<times> Tracer" where
  "SetRegs t r =
     (case next_fault t of
        Some e \<Rightarrow> (Some (TracerError e), issue (OpSetRegs r) t)
      | None \<Rightarrow> (None, (issue (OpSetRegs r) t)\<lparr>regs := r\<rparr>))"

subsection \<open>Regions, active regions, events and the Proc\<close>

text \<open>
  Modelled from the spec: the interface \<^verbatim>\<open>Region\<close> and the type \<^verbatim>\<open>RegionState\<close> are
  declared outside the sources at hand. By section 4.3 a region exposes two pure operations
  over the Proc context: \<open>Start\<close> is a function of the PIE offset, and \<open>End\<close> takes the
  stack pointer and may inspect the tracee through the Proc (its PIE offset and its tracer
  handle), returning an address or an error. \<open>RegionState\<close> has the two states
  \<open>RegionStart\<close> and \<open>RegionEnd\<close>; \<open>RegionOther\<close> stands for any further value of the
  underlying integer type, which the \<^verbatim>\<open>default\<close> branch of \<^verbatim>\<open>handleInterrupt\<close> rejects.
\<close>

datatype RegionState = RegionStart | RegionEnd | RegionOther

record Region =
  Start :: "64 word \<Rightarrow> 64 word"
  End :: "64 word \<Rightarrow> 64 word \<Rightarrow> Tracer \<Rightarrow> 64 word \<times> error option"

record activeRegion =
  region :: Region
  state :: RegionState
  curInterrupt :: "64 word"
  id_r :: nat

record Event =
  Id_e :: nat
  State_e :: RegionState

record Proc =
  tracer :: Tracer
  regions :: "activeRegion list"
  pieOffset :: "64 word"
  exited :: bool
  breakpoints :: "addr \<rightharpoonup> byte list"

section \<open>Operations\<close>

text \<open>\<^verbatim>\<open>func (p *Proc) setBreak(pc uint64) error\<close>\<close>

definition setBreak :: "Proc \<Rightarrow> 64 word \<Rightarrow> error option \<times> Proc" where
  "setBreak p pc =
     (case breakpoints p pc of
        Some _ \<Rightarrow> (None, p)
      | None \<Rightarrow>
          (case PeekData (tracer p) pc (length interrupt) of
             ((orig, Some e), t1) \<Rightarrow> (Some e, p\<lparr>tracer := t1\<rparr>)
           | ((orig, None), t1) \<Rightarrow>
               (case PokeData t1 pc interrupt of
                  (Some e, t2) \<Rightarrow> (Some e, p\<lparr>tracer := t2\<rparr>)
                | (None, t2) \<Rightarrow>
                    (None, p\<lparr>tracer := t2, breakpoints := (breakpoints p)(pc \<mapsto> orig)\<rparr>))))"

text \<open>
  \<^verbatim>\<open>func (p *Proc) removeBreak(pc uint64) error\<close>: the entry is deleted after the poke,
  whatever the poke returned, and the poke's error is the result.
\<close>

definition removeBreak :: "Proc \<Rightarrow> 64 word \<Rightarrow> error option \<times> Proc" where
  "removeBreak p pc =
     (case breakpoints p pc of
        None \<Rightarrow> (Some ErrInvalidBreakpoint, p)
      | Some orig \<Rightarrow>
          (case PokeData (tracer p) pc orig of
             (err, t1) \<Rightarrow> (err, p\<lparr>tracer := t1, breakpoints := (breakpoints p)(pc := None)\<rparr>)))"

text \<open>
  The body of the loop of \<^verbatim>\<open>handleInterrupt\<close> for a region at index \<open>i\<close> whose armed
  address is the trap address: the \<^verbatim>\<open>switch r.state\<close> with \<open>r\<close> the copy of
  \<^verbatim>\<open>p.regions[i]\<close> made by \<^verbatim>\<open>range\<close>. Every error exit of the source returns
  \<^verbatim>\<open>nil, err\<close>, so the result is the error (if any) and the Proc as it was left.
\<close>

definition rearm :: "PtraceRegs \<Rightarrow> nat \<Rightarrow> Proc \<Rightarrow> error option \<times> Proc" where
  "rearm rg i p =
     (let r = regions p ! i in
      case state r of
        RegionStart \<Rightarrow>
          (let p1 = p\<lparr>regions := (regions p)[i := (regions p ! i)\<lparr>state := RegionEnd\<rparr>]\<rparr> in
           case End (region r) (Rsp rg) (pieOffset p1) (tracer p1) of
             (a, Some e) \<Rightarrow> (Some e, p1)
           | (a, None) \<Rightarrow>
               setBreak (p1\<lparr>regions := (regions p1)[i := (regions p1 ! i)\<lparr>curInterrupt := a\<rparr>]\<rparr>) a)
      | RegionEnd \<Rightarrow>
          (let p1 = p\<lparr>regions := (regions p)[i := (regions p ! i)\<lparr>state := RegionStart\<rparr>]\<rparr>;
               p2 = p1\<lparr>regions := (regions p1)[i := (regions p1 ! i)
                        \<lparr>curInterrupt := Start (region r) (pieOffset p1)\<rparr>]\<rparr>
           in setBreak p2 (curInterrupt (regions p2 ! i)))
      | RegionOther \<Rightarrow> (Some InvalidState, p))"

text \<open>
  The loop \<^verbatim>\<open>for i, r := range p.regions\<close> over the indices still to visit, with the
  events collected so far. An error returns no events.
\<close>

fun handleRegions :: "PtraceRegs \<Rightarrow> nat list \<Rightarrow> Proc \<Rightarrow> Event list \<Rightarrow> (Event list \<times> error option) \<times> Proc" where
  "handleRegions rg [] p events = ((events, None), p)"
| "handleRegions rg (i # is) p events =
     (let r = regions p ! i in
      if curInterrupt r = Rip rg then
        (case rearm rg i p of
           (Some e, p') \<Rightarrow> (([], Some e), p')
         | (None, p') \<Rightarrow> handleRegions rg is p' (events @ [\<lparr>Id_e = id_r r, State_e = state r\<rparr>]))
      else handleRegions rg is p events)"

text \<open>
  The first statements of \<^verbatim>\<open>handleInterrupt\<close>: read the register file into a zero
  struct, step the instruction pointer back over the trap opcode, write the file back. The
  results of \<^verbatim>\<open>GetRegs\<close> and \<^verbatim>\<open>SetRegs\<close> are not looked at by the source. The
  local \<^verbatim>\<open>regs\<close> is returned with the Proc.
\<close>

definition rewind :: "Proc \<Rightarrow> PtraceRegs \<times> Proc" where
  "rewind p =
     (case GetRegs (tracer p) zeroRegs of
        ((r0, _), t1) \<Rightarrow>
          (let rg = r0\<lparr>Rip := Rip r0 - of_nat (length interrupt)\<rparr> in
           case SetRegs t1 rg of
             (_, t2) \<Rightarrow> (rg, p\<lparr>tracer := t2\<rparr>)))"

text \<open>\<^verbatim>\<open>func (p *Proc) handleInterrupt() ([]Event, error)\<close>\<close>

definition handleInterrupt :: "Proc \<Rightarrow> (Event list \<times> error option) \<times> Proc" where
  "handleInterrupt p =
     (case rewind p of
        (rg, p0) \<Rightarrow>
          (case removeBreak p0 (Rip rg) of
             (Some e, p1) \<Rightarrow> (([], Some e), p1)
           | (None, p1) \<Rightarrow> handleRegions rg [0..<length (regions p1)] p1 []))"

text \<open>
  \<^verbatim>\<open>func newTracedProc(pid, pie, regions, breaks) (*Proc, error)\<close>. The result of
  \<^verbatim>\<open>pie.PieOffset(pid)\<close> and the handle made by \<^verbatim>\<open>ptrace.NewTracer(pid)\<close> are
  parameters; a \<^verbatim>\<open>nil\<close> map of inherited breakpoints is the empty map. The loop runs over
  the regions still to attach with their ids.
\<close>

fun attachRegions :: "(addr \<rightharpoonup> byte list) \<Rightarrow> (nat \<times> Region) list \<Rightarrow> Proc \<Rightarrow> error + Proc" where
  "attachRegions breaks [] p = Inr p"
| "attachRegions breaks ((i, r) # rs) p =
     (let a = Start r (pieOffset p) in
      case (case breaks a of
              Some orig \<Rightarrow> (None, p\<lparr>breakpoints := (breakpoints p)(a \<mapsto> take (length orig) orig)\<rparr>)
            | None \<Rightarrow> setBreak p (Start r (pieOffset p))) of
        (Some e, p1) \<Rightarrow> Inl e
      | (None, p1) \<Rightarrow>
          attachRegions breaks rs
            (p1\<lparr>regions := regions p1 @
                  [\<lparr>region = r, state = RegionStart,
                    curInterrupt = Start r (pieOffset p1), id_r = i\<rparr>]\<rparr>))"

definition newTracedProc ::
    "64 word \<times> error option \<Rightarrow> Tracer \<Rightarrow> Region list \<Rightarrow> (addr \<rightharpoonup> byte list) \<Rightarrow> error + Proc" where
  "newTracedProc pie t rs breaks =
     (case pie of
        (off, Some e) \<Rightarrow> Inl e
      | (off, None) \<Rightarrow>
          attachRegions breaks (enumerate 0 rs)
            \<lparr>tracer = t, regions = [], pieOffset = off, exited = False,
             breakpoints = Map.empty\<rparr>)"

section \<open>Notions used to state the properties\<close>

text \<open>The next \<open>n\<close> operations issued on the tracer handle succeed.\<close>

definition succeeds :: "nat \<Rightarrow> Tracer \<Rightarrow> bool" where
  "succeeds n t = (\<forall>f \<in> set (take n (faults t)). f = None)"

text \<open>
  A sequence of traps as the supervisor sees it. Between two traps the tracee runs: its
  memory and registers change, and so may the outcome of the tracer operations to come;
  each element of the list is that change of the tracer handle's state up to the next trap
  stop. The table and the active regions are touched by \<open>handleInterrupt\<close> only. The
  events of the traps handled are collected in order, and the sequence ends at the first
  trap whose \<open>handleInterrupt\<close> returns an error.
\<close>

fun handleTraps :: "Proc \<Rightarrow> (Tracer \<Rightarrow> Tracer) list \<Rightarrow> (Event list \<times> error option) \<times> Proc" where
  "handleTraps p [] = (([], None), p)"
| "handleTraps p (f # fs) =
     (case handleInterrupt (p\<lparr>tracer := f (tracer p)\<rparr>) of
        ((evs, Some e), p1) \<Rightarrow> ((evs, Some e), p1)
      | ((evs, None), p1) \<Rightarrow>
          (case handleTraps p1 fs of ((evs', err), p2) \<Rightarrow> ((evs @ evs', err), p2)))"

text \<open>
  The same sequence of traps for a supervisor that goes on after an error, as the error
  policy of the specification allows (it may skip a region whose End address could not be
  resolved): every trap is handled, the events returned are collected in order, and an
  error of \<open>handleInterrupt\<close> is passed over.
\<close>

fun handleAllTraps :: "Proc \<Rightarrow> (Tracer \<Rightarrow> Tracer) list \<Rightarrow> Event list \<times> Proc" where
  "handleAllTraps p [] = ([], p)"
| "handleAllTraps p (f # fs) =
     (case handleInterrupt (p\<lparr>tracer := f (tracer p)\<rparr>) of
        ((evs, err), p1) \<Rightarrow>
          (case handleAllTraps p1 fs of (evs', p2) \<Rightarrow> (evs @ evs', p2)))"

text \<open>The states of the events with a given id, and the alternation of a list of states.\<close>

definition statesOf :: "nat \<Rightarrow> Event list \<Rightarrow> RegionState list" where
  "statesOf i evs = map State_e (filter (\<lambda>e. Id_e e = i) evs)"

fun complement :: "RegionState \<Rightarrow> RegionState" where
  "complement RegionStart = RegionEnd"
| "complement RegionEnd = RegionStart"
| "complement RegionOther = RegionOther"

fun alternates :: "RegionState \<Rightarrow> RegionState list \<Rightarrow> bool" where
  "alternates s [] = True"
| "alternates s (x # xs) = (x = s \<and> alternates (complement s) xs)"

text \<open>The event that \<open>handleInterrupt\<close> appends for an active region.\<close>

definition eventOf :: "activeRegion \<Rightarrow> Event" where
  "eventOf r = \<lparr>Id_e = id_r r, State_e = state r\<rparr>"

text \<open>The Start addresses of a list of regions under a PIE offset.\<close>

definition startAddrs :: "64 word \<Rightarrow> Region list \<Rightarrow> addr set" where
  "startAddrs off rs = (\<lambda>r. Start r off) ` set rs"

text \<open>The address a tracer operation on memory works at.\<close>

fun opAddr :: "tracer_op \<Rightarrow> addr option" where
  "opAddr (OpPeek a n) = Some a"
| "opAddr (OpPoke a bs) = Some a"
| "opAddr OpGetRegs = None"
| "opAddr (OpSetRegs r) = None"

text \<open>The active region that \<open>newTracedProc\<close> appends for a region and its id.\<close>

definition newRegion :: "64 word \<Rightarrow> nat \<times> Region \<Rightarrow> activeRegion" where
  "newRegion off ir = \<lparr>region = snd ir, state = RegionStart,
                        curInterrupt = Start (snd ir) off, id_r = fst ir\<rparr>"

text \<open>
  Two properties of a Proc: the id of every active region is its position in the list, and
  the armed addresses of the active regions are exactly the keys of the breakpoint table.
\<close>

definition idsOk :: "Proc \<Rightarrow> bool" where
  "idsOk p = (\<forall>j < length (regions p). id_r (regions p ! j) = j)"

definition armedOk :: "Proc \<Rightarrow> bool" where
  "armedOk p = (curInterrupt ` set (regions p) = dom (breakpoints p))"

section \<open>Example processes\<close>

text \<open>
  A tracee whose memory holds \<open>0x90\<close> everywhere, stopped one byte after \<open>0x401000\<close>,
  with a tracer handle that never fails; a region between two fixed offsets from the PIE
  base, and a region whose End function fails; the Proc that \<open>newTracedProc\<close> builds for
  one region starting at offset \<open>0x1000\<close> of the PIE base \<open>0x400000\<close>.
\<close>

definition exTracer :: Tracer where
  "exTracer = \<lparr>mem = (\<lambda>_. 0x90), regs = \<lparr>Rip = 0x401001, Rsp = 0x7000\<rparr>,
                faults = [], issued = []\<rparr>"

definition exProc :: Proc where
  "exProc = \<lparr>tracer = exTracer, regions = [], pieOffset = 0x400000, exited = False,
             breakpoints = Map.empty\<rparr>"

definition addrRegion :: "64 word \<Rightarrow> 64 word \<Rightarrow> Region" where
  "addrRegion s e = \<lparr>Start = (\<lambda>off. off + s), End = (\<lambda>sp off t. (off + e, None))\<rparr>"

definition failRegion :: "64 word \<Rightarrow> Region" where
  "failRegion s = \<lparr>Start = (\<lambda>off. off + s), End = (\<lambda>sp off t. (0, Some RegionEndUnresolved))\<rparr>"

definition armedTracer :: Tracer where
  "armedTracer = exTracer\<lparr>mem := (mem exTracer)(0x401000 := 0xCC),
                          issued := [OpPeek 0x401000 1, OpPoke 0x401000 [0xCC]]\<rparr>"

definition attached :: "Region \<Rightarrow> Proc" where
  "attached r =
     \<lparr>tracer = armedTracer,
      regions = [\<lparr>region = r, state = RegionStart, curInterrupt = 0x401000, id_r = 0\<rparr>],
      pieOffset = 0x400000, exited = False, breakpoints = [0x401000 \<mapsto> [0x90]]\<rparr>"

definition pokeFails :: "Proc \<Rightarrow> Proc" where
  "pokeFails p = p\<lparr>tracer := (tracer p)\<lparr>faults := [Some MemoryAccess]\<rparr>\<rparr>"

text \<open>The same attached Proc with a handle whose \<open>SetRegs\<close>, or whose \<open>GetRegs\<close>, fails.\<close>

definition setRegsFails :: "Proc \<Rightarrow> Proc" where
  "setRegsFails p = p\<lparr>tracer := (tracer p)\<lparr>faults := [None, Some RegisterAccess]\<rparr>\<rparr>"

definition getRegsFails :: "Proc \<Rightarrow> Proc" where
  "getRegsFails p = p\<lparr>tracer := (tracer p)\<lparr>faults := [Some RegisterAccess]\<rparr>\<rparr>"

text \<open>The tracee runs on to a stop one byte after the address \<open>a\<close>.\<close>

definition stopAfter :: "64 word \<Rightarrow> Tracer \<Rightarrow> Tracer" where
  "stopAfter a t = t\<lparr>regs := (regs t)\<lparr>Rip := a + 1\<rparr>\<rparr>"

text \<open>Two regions that share the Start address \<open>0x401000\<close>, attached.\<close>

definition attachedShared :: Proc where
  "attachedShared =
     \<lparr>tracer = armedTracer,
      regions = [\<lparr>region = addrRegion 0x1000 0x1040, state = RegionStart,
                  curInterrupt = 0x401000, id_r = 0\<rparr>,
                 \<lparr>region = addrRegion 0x1000 0x1080, state = RegionStart,
                  curInterrupt = 0x401000, id_r = 1\<rparr>],
      pieOffset = 0x400000, exited = False, breakpoints = [0x401000 \<mapsto> [0x90]]\<rparr>"

text \<open>
  Two regions that share the Start address \<open>0x401000\<close>, the second with an End function
  that fails, attached.
\<close>

definition attachedMixed :: Proc where
  "attachedMixed =
     \<lparr>tracer = armedTracer,
      regions = [\<lparr>region = addrRegion 0x1000 0x1040, state = RegionStart,
                  curInterrupt = 0x401000, id_r = 0\<rparr>,
                 \<lparr>region = failRegion 0x1000, state = RegionStart,
                  curInterrupt = 0x401000, id_r = 1\<rparr>],
      pieOffset = 0x400000, exited = False, breakpoints = [0x401000 \<mapsto> [0x90]]\<rparr>"

text \<open>
  The child of a fork: the Proc built for one region from an inherited map that holds the
  region's Start address (scenario S5 of the specification).
\<close>

definition inheritedProc :: Proc where
  "inheritedProc =
     \<lparr>tracer = exTracer,
      regions = [\<lparr>region = addrRegion 0x1000 0x1040, state = RegionStart,
                  curInterrupt = 0x401000, id_r = 0\<rparr>],
      pieOffset = 0x400000, exited = False, breakpoints = [0x401000 \<mapsto> [0x48]]\<rparr>"

section \<open>The tracer handle and the breakpoint table\<close>

lemma PokeData_cases:
  "PokeData t a bs = (err, t') \<Longrightarrow>
     issued t' = issued t @ [OpPoke a bs] \<and> regs t' = regs t \<and> faults t' = drop 1 (faults t) \<and>
     (case next_fault t of
        Some e \<Rightarrow> err = Some (TracerError e) \<and> mem t' = mem t
      | None \<Rightarrow> err = None \<and> mem t' = write_bytes (mem t) a bs)"
  by (auto simp: PokeData_def issue_def split: option.splits)

lemma PeekData_cases:
  "PeekData t a n = ((bs, err), t') \<Longrightarrow>
     t' = issue (OpPeek a n) t \<and>
     (case next_fault t of
        Some e \<Rightarrow> err = Some (TracerError e)
      | None \<Rightarrow> err = None \<and> bs = read_bytes (mem t) a n)"
  by (auto simp: PeekData_def split: option.splits)

lemma setBreak_exProc:
  "setBreak exProc 0x401000 =
     (None, exProc\<lparr>tracer := armedTracer, breakpoints := [0x401000 \<mapsto> [0x90]]\<rparr>)"
  by (simp add: setBreak_def exProc_def exTracer_def armedTracer_def PeekData_def PokeData_def
      next_fault_def issue_def interrupt_def read_bytes_def)

text \<open>
  C5. Arming is idempotent. When the address is already a key of the breakpoint table,
  \<open>setBreak\<close> returns \<open>nil\<close> and leaves the whole Proc as it was: table, saved bytes,
  tracee memory, and the list of tracer operations issued (no peek, no poke). Hence a
  second \<open>setBreak\<close> at an address that a first one has just armed changes nothing.
\<close>

theorem setBreak_idempotent:
  "(a \<in> dom (breakpoints p) \<longrightarrow>
      setBreak p a = (None, p) \<and> issued (tracer (snd (setBreak p a))) = issued (tracer p)) \<and>
   (setBreak p a = (None, p1) \<longrightarrow>
      setBreak p1 a = (None, p1) \<and> issued (tracer (snd (setBreak p1 a))) = issued (tracer p1))"
  by (auto simp: setBreak_def split: option.splits prod.splits)

theorem setBreak_idempotent_witness:
  "0x401000 \<in> dom (breakpoints (snd (setBreak exProc 0x401000))) \<and>
   fst (setBreak exProc 0x401000) = None \<and>
   setBreak (snd (setBreak exProc 0x401000)) 0x401000 = (None, snd (setBreak exProc 0x401000)) \<and>
   mem (tracer (snd (setBreak (snd (setBreak exProc 0x401000)) 0x401000))) 0x401000 = 0xCC \<and>
   breakpoints (snd (setBreak (snd (setBreak exProc 0x401000)) 0x401000)) 0x401000 = Some [0x90]"
  using setBreak_idempotent [of "0x401000" "snd (setBreak exProc 0x401000)" "exProc"]
    setBreak_idempotent [of "0x401000" "exProc" "snd (setBreak exProc 0x401000)"]
  by (simp add: setBreak_exProc exTracer_def armedTracer_def)

text \<open>
  C4. \<open>removeBreak\<close> returns \<open>ErrInvalidBreakpoint\<close> exactly when the address is not a
  key of the breakpoint table. When it is a key, one poke of the saved bytes at the address
  is issued and the entry is deleted; when the poke succeeds the tracee's memory holds the
  saved bytes there. \<open>handleInterrupt\<close> returns no events and \<open>ErrInvalidBreakpoint\<close>
  when the rewound instruction pointer is not a key of the table.
\<close>

theorem removeBreak_InvalidBreakpoint:
  "(fst (removeBreak p a) = Some ErrInvalidBreakpoint \<longleftrightarrow> a \<notin> dom (breakpoints p)) \<and>
   (\<forall>orig. breakpoints p a = Some orig \<longrightarrow>
      (case removeBreak p a of (err, p') \<Rightarrow>
         issued (tracer p') = issued (tracer p) @ [OpPoke a orig] \<and>
         breakpoints p' = (breakpoints p)(a := None) \<and>
         (err = None \<longrightarrow> mem (tracer p') = write_bytes (mem (tracer p)) a orig))) \<and>
   (Rip (fst (rewind p)) \<notin> dom (breakpoints p) \<longrightarrow>
      fst (handleInterrupt p) = ([], Some ErrInvalidBreakpoint))"
  apply (intro conjI)
    apply (auto simp: removeBreak_def PokeData_def split: option.splits prod.splits)[1]
   apply (auto simp: removeBreak_def PokeData_def issue_def split: option.splits prod.splits)[1]
  apply (auto simp: handleInterrupt_def rewind_def removeBreak_def Let_def
      split: option.splits prod.splits)
  done

lemma rewind_exProc:
  "rewind exProc =
     (\<lparr>Rip = 0x401000, Rsp = 0x7000\<rparr>,
      exProc\<lparr>tracer := exTracer\<lparr>regs := \<lparr>Rip = 0x401000, Rsp = 0x7000\<rparr>,
               issued := [OpGetRegs, OpSetRegs \<lparr>Rip = 0x401000, Rsp = 0x7000\<rparr>]\<rparr>\<rparr>)"
  by (simp add: rewind_def exProc_def exTracer_def GetRegs_def SetRegs_def next_fault_def
      issue_def zeroRegs_def interrupt_def Let_def)

lemma removeBreak_armed:
  "removeBreak (snd (setBreak exProc 0x401000)) 0x401000 =
     (None, exProc\<lparr>tracer := armedTracer\<lparr>mem := (mem armedTracer)(0x401000 := 0x90),
              issued := issued armedTracer @ [OpPoke 0x401000 [0x90]]\<rparr>,
            breakpoints := Map.empty\<rparr>)"
  by (simp add: setBreak_exProc removeBreak_def PokeData_def next_fault_def issue_def
      exTracer_def armedTracer_def)

theorem removeBreak_InvalidBreakpoint_witness:
  "breakpoints (snd (setBreak exProc 0x401000)) 0x401000 = Some [0x90] \<and>
   fst (removeBreak (snd (setBreak exProc 0x401000)) 0x401000) = None \<and>
   mem (tracer (snd (removeBreak (snd (setBreak exProc 0x401000)) 0x401000))) 0x401000 = 0x90 \<and>
   breakpoints (snd (removeBreak (snd (setBreak exProc 0x401000)) 0x401000)) = Map.empty \<and>
   Rip (fst (rewind exProc)) = 0x401000 \<and>
   Rip (fst (rewind exProc)) \<notin> dom (breakpoints exProc) \<and>
   fst (handleInterrupt exProc) = ([], Some ErrInvalidBreakpoint)"
proof -
  have a: "breakpoints (snd (setBreak exProc 0x401000)) 0x401000 = Some [0x90]"
    by (simp add: setBreak_exProc)
  have b: "Rip (fst (rewind exProc)) \<notin> dom (breakpoints exProc)"
    by (simp add: rewind_exProc) (simp add: exProc_def)
  show ?thesis
    using removeBreak_InvalidBreakpoint [of "snd (setBreak exProc 0x401000)" "0x401000"]
      removeBreak_InvalidBreakpoint [of "exProc" "0x401000"] a b
    by (simp add: removeBreak_armed rewind_exProc)
qed

text \<open>
  C10. \<open>removeBreak\<close> is not atomic on error. When the address is a key of the table and
  the poke that restores the saved bytes fails, \<open>removeBreak\<close> returns the poke's error
  and the entry is deleted all the same: a second \<open>removeBreak\<close> at the address returns
  \<open>ErrInvalidBreakpoint\<close>. The tracee's memory is as it was, so a trap opcode that was at
  the address is still there.
\<close>

theorem removeBreak_not_atomic:
  "breakpoints p a = Some orig \<Longrightarrow> next_fault (tracer p) = Some e \<Longrightarrow>
   (case removeBreak p a of (err, p') \<Rightarrow>
      err = Some (TracerError e) \<and> a \<notin> dom (breakpoints p') \<and>
      mem (tracer p') = mem (tracer p) \<and>
      (read_bytes (mem (tracer p)) a (length interrupt) = interrupt \<longrightarrow>
         read_bytes (mem (tracer p')) a (length interrupt) = interrupt) \<and>
      fst (removeBreak p' a) = Some ErrInvalidBreakpoint)"
  by (auto simp: removeBreak_def PokeData_def issue_def split: option.splits prod.splits)

theorem removeBreak_not_atomic_witness:
  "breakpoints (pokeFails (snd (setBreak exProc 0x401000))) 0x401000 = Some [0x90] \<and>
   next_fault (tracer (pokeFails (snd (setBreak exProc 0x401000)))) = Some MemoryAccess \<and>
   read_bytes (mem (tracer (pokeFails (snd (setBreak exProc 0x401000))))) 0x401000
     (length interrupt) = interrupt \<and>
   (case removeBreak (pokeFails (snd (setBreak exProc 0x401000))) 0x401000 of (err, p') \<Rightarrow>
      err = Some (TracerError MemoryAccess) \<and> 0x401000 \<notin> dom (breakpoints p') \<and>
      read_bytes (mem (tracer p')) 0x401000 (length interrupt) = interrupt \<and>
      fst (removeBreak p' 0x401000) = Some ErrInvalidBreakpoint)"
  using removeBreak_not_atomic [of "pokeFails (snd (setBreak exProc 0x401000))" "0x401000"
      "[0x90]" MemoryAccess]
  by (simp add: setBreak_exProc pokeFails_def next_fault_def exTracer_def armedTracer_def
      read_bytes_def interrupt_def split: prod.splits)

section \<open>What each operation leaves untouched\<close>

lemma setBreak_frame:
  "setBreak p a = (err, p') \<Longrightarrow>
     regions p' = regions p \<and> pieOffset p' = pieOffset p \<and> exited p' = exited p \<and>
     regs (tracer p') = regs (tracer p) \<and>
     (\<exists>ops. issued (tracer p') = issued (tracer p) @ ops)"
  by (auto simp: setBreak_def PeekData_def PokeData_def issue_def
      split: option.splits prod.splits)

lemma setBreak_ok:
  "setBreak p a = (None, p') \<Longrightarrow>
     dom (breakpoints p') = insert a (dom (breakpoints p)) \<and>
     (\<forall>b \<in> dom (breakpoints p). breakpoints p' b = breakpoints p b)"
  by (auto simp: setBreak_def split: option.splits prod.splits)

lemma removeBreak_frame:
  "removeBreak p a = (err, p') \<Longrightarrow>
     regions p' = regions p \<and> pieOffset p' = pieOffset p \<and> exited p' = exited p \<and>
     regs (tracer p') = regs (tracer p) \<and>
     (\<exists>ops. issued (tracer p') = issued (tracer p) @ ops)"
  by (auto simp: removeBreak_def PokeData_def issue_def split: option.splits prod.splits)

lemma removeBreak_ok:
  "removeBreak p a = (None, p') \<Longrightarrow>
     a \<in> dom (breakpoints p) \<and> breakpoints p' = (breakpoints p)(a := None)"
  by (auto simp: removeBreak_def split: option.splits prod.splits)

lemma rearm_frame:
  "rearm rg i p = (err, p') \<Longrightarrow>
     pieOffset p' = pieOffset p \<and> exited p' = exited p \<and>
     regs (tracer p') = regs (tracer p) \<and>
     length (regions p') = length (regions p) \<and>
     (\<forall>j. j \<noteq> i \<longrightarrow> regions p' ! j = regions p ! j) \<and>
     (\<exists>ops. issued (tracer p') = issued (tracer p) @ ops)"
  by (auto simp: rearm_def Let_def dest!: setBreak_frame
      split: RegionState.splits option.splits prod.splits)

lemma rearm_ok:
  "rearm rg i p = (None, p') \<Longrightarrow> i < length (regions p) \<Longrightarrow>
     region (regions p' ! i) = region (regions p ! i) \<and>
     id_r (regions p' ! i) = id_r (regions p ! i) \<and>
     dom (breakpoints p') = insert (curInterrupt (regions p' ! i)) (dom (breakpoints p)) \<and>
     (\<forall>b \<in> dom (breakpoints p). breakpoints p' b = breakpoints p b) \<and>
     (state (regions p ! i) = RegionStart \<and> state (regions p' ! i) = RegionEnd \<and>
        End (region (regions p ! i)) (Rsp rg) (pieOffset p) (tracer p)
          = (curInterrupt (regions p' ! i), None)
      \<or> state (regions p ! i) = RegionEnd \<and> state (regions p' ! i) = RegionStart \<and>
        curInterrupt (regions p' ! i) = Start (region (regions p ! i)) (pieOffset p))"
  apply (simp add: rearm_def Let_def split: RegionState.splits option.splits prod.splits)
   apply (frule setBreak_frame, frule setBreak_ok, simp)
  apply (frule setBreak_frame, frule setBreak_ok, simp)
  done

lemma handleRegions_frame:
  "handleRegions rg is p evs = (res, p') \<Longrightarrow>
     pieOffset p' = pieOffset p \<and> exited p' = exited p \<and>
     regs (tracer p') = regs (tracer p) \<and>
     length (regions p') = length (regions p) \<and>
     (\<forall>j. j \<notin> set is \<longrightarrow> regions p' ! j = regions p ! j) \<and>
     (\<exists>ops. issued (tracer p') = issued (tracer p) @ ops)"
proof (induction "is" arbitrary: p evs)
  case Nil
  then show ?case by simp
next
  case (Cons i "is")
  show ?case
  proof (cases "curInterrupt (regions p ! i) = Rip rg")
    case False
    with Cons.prems have "handleRegions rg is p evs = (res, p')" by simp
    from Cons.IH [OF this] show ?thesis by simp
  next
    case True
    obtain err p1 where r: "rearm rg i p = (err, p1)" by (cases "rearm rg i p")
    note f = rearm_frame [OF r]
    show ?thesis
    proof (cases err)
      case (Some e)
      with Cons.prems True r have "p' = p1" by simp
      with f show ?thesis by simp
    next
      case None
      with Cons.prems True r
      have "handleRegions rg is p1
              (evs @ [\<lparr>Id_e = id_r (regions p ! i), State_e = state (regions p ! i)\<rparr>]) = (res, p')"
        by (simp add: Let_def)
      from Cons.IH [OF this] f show ?thesis by auto
    qed
  qed
qed

lemma rewind_frame:
  "rewind p = (rg, p0) \<Longrightarrow>
     regions p0 = regions p \<and> pieOffset p0 = pieOffset p \<and> exited p0 = exited p \<and>
     breakpoints p0 = breakpoints p \<and> mem (tracer p0) = mem (tracer p) \<and>
     issued (tracer p0) = issued (tracer p) @ [OpGetRegs, OpSetRegs rg]"
  by (auto simp: rewind_def GetRegs_def SetRegs_def issue_def Let_def
      split: option.splits prod.splits)

lemma succeeds_2:
  "succeeds 2 t \<Longrightarrow> next_fault t = None \<and> next_fault (issue op t) = None"
  by (cases "faults t"; cases "tl (faults t)")
     (auto simp: succeeds_def next_fault_def issue_def numeral_2_eq_2)

lemma rewind_ok:
  "succeeds 2 (tracer p) \<Longrightarrow> rewind p = (rg, p0) \<Longrightarrow>
     rg = (regs (tracer p))\<lparr>Rip := Rip (regs (tracer p)) - 1\<rparr> \<and> regs (tracer p0) = rg"
  by (frule succeeds_2 [where op = OpGetRegs])
     (auto simp: rewind_def GetRegs_def SetRegs_def Let_def interrupt_def)

lemma handleInterrupt_frame:
  "rewind p = (rg, p0) \<Longrightarrow> handleInterrupt p = (res, p') \<Longrightarrow>
     pieOffset p' = pieOffset p \<and> exited p' = exited p \<and>
     regs (tracer p') = regs (tracer p0) \<and>
     length (regions p') = length (regions p) \<and>
     (\<exists>ops. issued (tracer p') = issued (tracer p) @ [OpGetRegs, OpSetRegs rg] @ ops)"
  apply (frule rewind_frame)
  apply (cases "removeBreak p0 (Rip rg)")
  apply (frule removeBreak_frame)
  apply (auto simp: handleInterrupt_def split: option.splits dest!: handleRegions_frame)
  done

section \<open>Rewinding the instruction pointer\<close>

text \<open>
  C2. Every \<open>handleInterrupt\<close> first issues \<open>GetRegs\<close> and then \<open>SetRegs\<close> with the
  instruction pointer stepped back by the length of the trap opcode (one byte), before any
  other tracer operation. When these two operations succeed, the trap address used by the
  handler is the original instruction pointer minus one, and after \<open>handleInterrupt\<close>
  (whatever it returns) the tracee's register file is the original one with the
  instruction pointer at that address.
\<close>

theorem handleInterrupt_rewinds_pc:
  "(\<exists>ops. issued (tracer (snd (handleInterrupt p))) =
            issued (tracer p) @ [OpGetRegs, OpSetRegs (fst (rewind p))] @ ops) \<and>
   (succeeds 2 (tracer p) \<longrightarrow>
      Rip (fst (rewind p)) = Rip (regs (tracer p)) - of_nat (length interrupt) \<and>
      regs (tracer (snd (handleInterrupt p))) =
        (regs (tracer p))\<lparr>Rip := Rip (regs (tracer p)) - of_nat (length interrupt)\<rparr>)"
proof -
  obtain rg p0 where r: "rewind p = (rg, p0)" by (cases "rewind p")
  obtain res p' where h: "handleInterrupt p = (res, p')" by (cases "handleInterrupt p")
  from handleInterrupt_frame [OF r h] rewind_ok [OF _ r] r h
  show ?thesis by (auto simp: interrupt_def)
qed

lemmas eval_defs = handleInterrupt_def rewind_def removeBreak_def setBreak_def rearm_def
  GetRegs_def SetRegs_def PeekData_def PokeData_def next_fault_def issue_def zeroRegs_def
  interrupt_def read_bytes_def Let_def

theorem handleInterrupt_rewinds_pc_witness:
  "succeeds 2 (tracer (attached (addrRegion 0x1000 0x1040))) \<and>
   Rip (regs (tracer (attached (addrRegion 0x1000 0x1040)))) = 0x401001 \<and>
   Rip (fst (rewind (attached (addrRegion 0x1000 0x1040)))) = 0x401000 \<and>
   Rip (regs (tracer (snd (handleInterrupt (attached (addrRegion 0x1000 0x1040)))))) = 0x401000"
  using handleInterrupt_rewinds_pc [of "attached (addrRegion 0x1000 0x1040)"]
  by (simp add: succeeds_def attached_def armedTracer_def exTracer_def interrupt_def)

text \<open>
  C9. The results of \<open>GetRegs\<close> and \<open>SetRegs\<close> are dropped by \<open>handleInterrupt\<close>. With
  one region armed at \<open>0x401000\<close> and the tracee stopped at \<open>0x401001\<close>: when \<open>SetRegs\<close>
  fails with \<open>RegisterAccess\<close>, \<open>handleInterrupt\<close> returns the Start event and no error,
  and the tracee's instruction pointer is still \<open>0x401001\<close>; when \<open>GetRegs\<close> fails, the
  handler works on the zero register file, writes it back rewound, and returns
  \<open>ErrInvalidBreakpoint\<close> in place of the register error.
\<close>

theorem handleInterrupt_drops_register_errors:
  "fst (handleInterrupt (setRegsFails (attached (addrRegion 0x1000 0x1040)))) =
     ([\<lparr>Id_e = 0, State_e = RegionStart\<rparr>], None) \<and>
   Rip (regs (tracer (snd (handleInterrupt (setRegsFails (attached (addrRegion 0x1000 0x1040)))))))
     = 0x401001 \<and>
   fst (handleInterrupt (getRegsFails (attached (addrRegion 0x1000 0x1040)))) =
     ([], Some ErrInvalidBreakpoint) \<and>
   regs (tracer (snd (handleInterrupt (getRegsFails (attached (addrRegion 0x1000 0x1040)))))) =
     \<lparr>Rip = 0xFFFFFFFFFFFFFFFF, Rsp = 0\<rparr>"
  by (simp add: eval_defs attached_def armedTracer_def exTracer_def addrRegion_def
      setRegsFails_def getRegsFails_def)

section \<open>The loop over the active regions\<close>


lemma handleRegions_Cons_ok:
  "handleRegions rg (i # is) p evs = ((evs', None), p') \<Longrightarrow>
     (curInterrupt (regions p ! i) \<noteq> Rip rg \<and> handleRegions rg is p evs = ((evs', None), p')) \<or>
     (curInterrupt (regions p ! i) = Rip rg \<and>
      (\<exists>p1. rearm rg i p = (None, p1) \<and>
            handleRegions rg is p1 (evs @ [eventOf (regions p ! i)]) = ((evs', None), p')))"
  by (auto simp: Let_def eventOf_def split: if_splits option.splits prod.splits)

lemma handleRegions_events:
  "handleRegions rg is p evs = ((evs', None), p') \<Longrightarrow> distinct is \<Longrightarrow>
     evs' = evs @ map (\<lambda>i. eventOf (regions p ! i))
                      (filter (\<lambda>i. curInterrupt (regions p ! i) = Rip rg) is)"
proof (induction "is" arbitrary: p evs)
  case Nil
  then show ?case by simp
next
  case (Cons i "is")
  from handleRegions_Cons_ok [OF Cons.prems(1)] show ?case
  proof (elim disjE conjE exE)
    assume "curInterrupt (regions p ! i) \<noteq> Rip rg"
      and "handleRegions rg is p evs = ((evs', None), p')"
    with Cons.IH [of p evs] Cons.prems(2) show ?thesis by simp
  next
    fix p1
    assume m: "curInterrupt (regions p ! i) = Rip rg"
      and r: "rearm rg i p = (None, p1)"
      and h: "handleRegions rg is p1 (evs @ [eventOf (regions p ! i)]) = ((evs', None), p')"
    from rearm_frame [OF r] Cons.prems(2)
    have same: "\<forall>j \<in> set is. regions p1 ! j = regions p ! j" by auto
    have "evs' = (evs @ [eventOf (regions p ! i)]) @ map (\<lambda>i. eventOf (regions p1 ! i))
                      (filter (\<lambda>i. curInterrupt (regions p1 ! i) = Rip rg) is)"
      using Cons.IH [OF h] Cons.prems(2) by simp
    also have "filter (\<lambda>i. curInterrupt (regions p1 ! i) = Rip rg) is
             = filter (\<lambda>i. curInterrupt (regions p ! i) = Rip rg) is"
      using same by (intro filter_cong) auto
    also have "map (\<lambda>i. eventOf (regions p1 ! i)) (filter (\<lambda>i. curInterrupt (regions p ! i) = Rip rg) is)
             = map (\<lambda>i. eventOf (regions p ! i)) (filter (\<lambda>i. curInterrupt (regions p ! i) = Rip rg) is)"
      using same by (intro map_cong) auto
    finally show ?thesis using m by simp
  qed
qed


lemma setBreak_keeps:
  "setBreak p a = (err, p') \<Longrightarrow> b \<in> dom (breakpoints p) \<Longrightarrow> breakpoints p' b = breakpoints p b"
  by (auto simp: setBreak_def split: option.splits prod.splits)

lemma rearm_keeps:
  "rearm rg i p = (err, p') \<Longrightarrow> b \<in> dom (breakpoints p) \<Longrightarrow> breakpoints p' b = breakpoints p b"
  by (auto simp: rearm_def Let_def dest!: setBreak_keeps
      split: RegionState.splits option.splits prod.splits)

lemma handleRegions_keeps:
  "handleRegions rg is p evs = (res, p') \<Longrightarrow> b \<in> dom (breakpoints p) \<Longrightarrow>
     breakpoints p' b = breakpoints p b"
proof (induction "is" arbitrary: p evs)
  case Nil
  then show ?case by simp
next
  case (Cons i "is")
  show ?case
  proof (cases "curInterrupt (regions p ! i) = Rip rg")
    case False
    with Cons.prems have "handleRegions rg is p evs = (res, p')" by simp
    from Cons.IH [OF this] Cons.prems(2) show ?thesis by simp
  next
    case True
    obtain err p1 where r: "rearm rg i p = (err, p1)" by (cases "rearm rg i p")
    note f = rearm_keeps [OF r Cons.prems(2)]
    show ?thesis
    proof (cases err)
      case (Some e)
      with Cons.prems True r have "p' = p1" by simp
      with f show ?thesis by simp
    next
      case None
      with Cons.prems True r
      have "handleRegions rg is p1
              (evs @ [\<lparr>Id_e = id_r (regions p ! i), State_e = state (regions p ! i)\<rparr>]) = (res, p')"
        by (simp add: Let_def)
      from Cons.IH [OF this] f Cons.prems(2) show ?thesis by (simp add: domIff)
    qed
  qed
qed

lemma handleRegions_table:
  "handleRegions rg is p evs = ((evs', None), p') \<Longrightarrow> distinct is \<Longrightarrow>
   \<forall>i \<in> set is. i < length (regions p) \<Longrightarrow>
     dom (breakpoints p') =
       dom (breakpoints p) \<union>
       {curInterrupt (regions p' ! i) | i. i \<in> set is \<and> curInterrupt (regions p ! i) = Rip rg}"
proof (induction "is" arbitrary: p evs)
  case Nil
  then show ?case by simp
next
  case (Cons k "is")
  from handleRegions_Cons_ok [OF Cons.prems(1)] show ?case
  proof (elim disjE conjE exE)
    assume m: "curInterrupt (regions p ! k) \<noteq> Rip rg"
      and h: "handleRegions rg is p evs = ((evs', None), p')"
    from Cons.IH [OF h] Cons.prems m show ?thesis by auto
  next
    fix p1
    assume m: "curInterrupt (regions p ! k) = Rip rg"
      and r: "rearm rg k p = (None, p1)"
      and h: "handleRegions rg is p1 (evs @ [eventOf (regions p ! k)]) = ((evs', None), p')"
    note f = rearm_frame [OF r]
    note hf = handleRegions_frame [OF h]
    have k: "k < length (regions p)" using Cons.prems(3) by simp
    have keep: "regions p' ! k = regions p1 ! k" using hf Cons.prems(2) by simp
    have same: "\<forall>j \<in> set is. regions p1 ! j = regions p ! j" using f Cons.prems(2) by auto
    have d1: "dom (breakpoints p1) = insert (curInterrupt (regions p' ! k)) (dom (breakpoints p))"
      using rearm_ok [OF r k] keep by simp
    have "dom (breakpoints p') = dom (breakpoints p1) \<union>
       {curInterrupt (regions p' ! i) | i. i \<in> set is \<and> curInterrupt (regions p1 ! i) = Rip rg}"
      using Cons.IH [OF h] Cons.prems f by simp
    also have "{curInterrupt (regions p' ! i) | i. i \<in> set is \<and> curInterrupt (regions p1 ! i) = Rip rg}
        = {curInterrupt (regions p' ! i) | i. i \<in> set is \<and> curInterrupt (regions p ! i) = Rip rg}"
      using same by auto
    finally show ?thesis using d1 m by auto
  qed
qed

lemma handleRegions_regions:
  "handleRegions rg is p evs = ((evs', None), p') \<Longrightarrow> distinct is \<Longrightarrow>
   \<forall>i \<in> set is. i < length (regions p) \<Longrightarrow> i \<in> set is \<Longrightarrow>
     (if curInterrupt (regions p ! i) = Rip rg
      then region (regions p' ! i) = region (regions p ! i) \<and>
           id_r (regions p' ! i) = id_r (regions p ! i) \<and>
           state (regions p ! i) \<noteq> RegionOther \<and>
           state (regions p' ! i) = complement (state (regions p ! i)) \<and>
           curInterrupt (regions p' ! i) \<in> dom (breakpoints p') \<and>
           (state (regions p ! i) = RegionEnd \<longrightarrow>
              curInterrupt (regions p' ! i) = Start (region (regions p ! i)) (pieOffset p))
      else regions p' ! i = regions p ! i)"
proof (induction "is" arbitrary: p evs)
  case Nil
  then show ?case by simp
next
  case (Cons k "is")
  from handleRegions_Cons_ok [OF Cons.prems(1)] show ?case
  proof (elim disjE conjE exE)
    assume m: "curInterrupt (regions p ! k) \<noteq> Rip rg"
      and h: "handleRegions rg is p evs = ((evs', None), p')"
    show ?thesis
    proof (cases "i = k")
      case True
      with handleRegions_frame [OF h] Cons.prems(2) m show ?thesis by simp
    next
      case False
      with Cons.IH [OF h] Cons.prems show ?thesis by simp
    qed
  next
    fix p1
    assume m: "curInterrupt (regions p ! k) = Rip rg"
      and r: "rearm rg k p = (None, p1)"
      and h: "handleRegions rg is p1 (evs @ [eventOf (regions p ! k)]) = ((evs', None), p')"
    note f = rearm_frame [OF r]
    note hf = handleRegions_frame [OF h]
    show ?thesis
    proof (cases "i = k")
      case True
      have k: "k < length (regions p)" using Cons.prems(3) by simp
      have keep: "regions p' ! k = regions p1 ! k" using hf Cons.prems(2) by simp
      have sub: "dom (breakpoints p1) \<subseteq> dom (breakpoints p')"
        using handleRegions_keeps [OF h] by (auto simp: domIff)
      from rearm_ok [OF r k] keep sub m True show ?thesis by auto
    next
      case False
      with Cons.prems f have "i \<in> set is" "distinct is" "\<forall>i \<in> set is. i < length (regions p1)"
        by auto
      moreover have "regions p1 ! i = regions p ! i" "pieOffset p1 = pieOffset p"
        using f False by simp_all
      ultimately show ?thesis using Cons.IH [OF h] by (simp split: if_splits)
    qed
  qed
qed



lemma handleRegions_append:
  "handleRegions rg (xs @ ys) p evs =
     (case handleRegions rg xs p evs of
        ((evs1, None), p1) \<Rightarrow> handleRegions rg ys p1 evs1
      | ((evs1, Some e), p1) \<Rightarrow> ((evs1, Some e), p1))"
  by (induction xs arbitrary: p evs) (auto simp: Let_def split: option.splits prod.splits)

lemma handleRegions_End:
  assumes h: "handleRegions rg (xs @ i # ys) p evs = ((evs', None), p')"
    and d: "distinct (xs @ i # ys)" and i: "i < length (regions p)"
    and m: "curInterrupt (regions p ! i) = Rip rg"
    and s: "state (regions p ! i) = RegionStart"
  shows "End (region (regions p ! i)) (Rsp rg) (pieOffset p)
           (tracer (snd (handleRegions rg xs p evs))) = (curInterrupt (regions p' ! i), None)"
proof -
  obtain evs1 e1 p1 where x: "handleRegions rg xs p evs = ((evs1, e1), p1)"
    by (cases "handleRegions rg xs p evs") auto
  with h have e1: "e1 = None" and t: "handleRegions rg (i # ys) p1 evs1 = ((evs', None), p')"
    by (auto simp: handleRegions_append split: option.splits)
  from handleRegions_frame [OF x] d
  have same: "regions p1 ! i = regions p ! i" "pieOffset p1 = pieOffset p"
    "length (regions p1) = length (regions p)" by auto
  from handleRegions_Cons_ok [OF t] m same
  obtain p2 where r: "rearm rg i p1 = (None, p2)"
    and u: "handleRegions rg ys p2 (evs1 @ [eventOf (regions p1 ! i)]) = ((evs', None), p')"
    by auto
  from handleRegions_frame [OF u] d have "regions p' ! i = regions p2 ! i" by auto
  with rearm_ok [OF r] i same s x show ?thesis by auto
qed

lemma map_filter_nth:
  "map (\<lambda>i. f (xs ! i)) (filter (\<lambda>i. P (xs ! i)) [0..<length xs]) = map f (filter P xs)"
proof -
  have "map f (filter P (map ((!) xs) [0..<length xs])) =
        map (\<lambda>i. f (xs ! i)) (filter (\<lambda>i. P (xs ! i)) [0..<length xs])"
    by (simp add: filter_map comp_def)
  then show ?thesis by (simp add: map_nth)
qed

text \<open>
  C1. When \<open>handleInterrupt\<close> handles a trap (it returns without error) at the rewound
  address \<open>Rip rg\<close>, the events returned are exactly the events \<open>(id, state)\<close> of the
  active regions whose armed address is the trap address, one per such region, in the order
  of the region list, each with the state the region had before the trap. Every such
  region keeps its descriptor and id and moves on its own: from Start to End, armed at the
  address its End function returns for the stack pointer and the Proc as the loop finds it,
  or from End to Start, armed at its recomputed Start address; the new armed address is a
  key of the table. The other regions are unchanged.
\<close>

theorem handleInterrupt_events:
  assumes "rewind p = (rg, p0)" and "removeBreak p0 (Rip rg) = (err, p1)"
    and "handleInterrupt p = ((evs, None), p')"
  shows "evs = map (\<lambda>r. \<lparr>Id_e = id_r r, State_e = state r\<rparr>)
                   (filter (\<lambda>r. curInterrupt r = Rip rg) (regions p)) \<and>
         length (regions p') = length (regions p) \<and>
         (\<forall>i < length (regions p).
            if curInterrupt (regions p ! i) = Rip rg
            then region (regions p' ! i) = region (regions p ! i) \<and>
                 id_r (regions p' ! i) = id_r (regions p ! i) \<and>
                 curInterrupt (regions p' ! i) \<in> dom (breakpoints p') \<and>
                 (state (regions p ! i) = RegionStart \<and> state (regions p' ! i) = RegionEnd \<and>
                    End (region (regions p ! i)) (Rsp rg) (pieOffset p)
                        (tracer (snd (handleRegions rg [0..<i] p1 [])))
                      = (curInterrupt (regions p' ! i), None)
                  \<or> state (regions p ! i) = RegionEnd \<and> state (regions p' ! i) = RegionStart \<and>
                    curInterrupt (regions p' ! i) = Start (region (regions p ! i)) (pieOffset p))
            else regions p' ! i = regions p ! i)"
proof -
  note rf = rewind_frame [OF assms(1)]
  note bf = removeBreak_frame [OF assms(2)]
  let ?n = "length (regions p)"
  from assms have err: "err = None" and h: "handleRegions rg [0..<?n] p1 [] = ((evs, None), p')"
    using rf bf by (auto simp: handleInterrupt_def split: option.splits)
  have r1: "regions p1 = regions p" "pieOffset p1 = pieOffset p" using rf bf by simp_all
  have ev: "evs = map (\<lambda>r. \<lparr>Id_e = id_r r, State_e = state r\<rparr>)
                   (filter (\<lambda>r. curInterrupt r = Rip rg) (regions p))"
    using handleRegions_events [OF h] map_filter_nth [of eventOf "regions p" "\<lambda>r. curInterrupt r = Rip rg"]
    by (simp add: r1 eventOf_def [abs_def])
  have len: "length (regions p') = ?n" using handleRegions_frame [OF h] r1 by simp
  have each: "if curInterrupt (regions p ! i) = Rip rg
            then region (regions p' ! i) = region (regions p ! i) \<and>
                 id_r (regions p' ! i) = id_r (regions p ! i) \<and>
                 curInterrupt (regions p' ! i) \<in> dom (breakpoints p') \<and>
                 (state (regions p ! i) = RegionStart \<and> state (regions p' ! i) = RegionEnd \<and>
                    End (region (regions p ! i)) (Rsp rg) (pieOffset p)
                        (tracer (snd (handleRegions rg [0..<i] p1 [])))
                      = (curInterrupt (regions p' ! i), None)
                  \<or> state (regions p ! i) = RegionEnd \<and> state (regions p' ! i) = RegionStart \<and>
                    curInterrupt (regions p' ! i) = Start (region (regions p ! i)) (pieOffset p))
            else regions p' ! i = regions p ! i" if i: "i < ?n" for i
  proof -
    have split: "[0..<?n] = [0..<i] @ i # [Suc i..<?n]"
    proof -
      have "[0..<i + (?n - i)] = [0..<i] @ [i..<i + (?n - i)]"
        by (rule upt_add_eq_append) simp
      with i show ?thesis by (simp add: upt_conv_Cons)
    qed
    have g: "if curInterrupt (regions p ! i) = Rip rg
      then region (regions p' ! i) = region (regions p ! i) \<and>
           id_r (regions p' ! i) = id_r (regions p ! i) \<and>
           state (regions p ! i) \<noteq> RegionOther \<and>
           state (regions p' ! i) = complement (state (regions p ! i)) \<and>
           curInterrupt (regions p' ! i) \<in> dom (breakpoints p') \<and>
           (state (regions p ! i) = RegionEnd \<longrightarrow>
              curInterrupt (regions p' ! i) = Start (region (regions p ! i)) (pieOffset p))
      else regions p' ! i = regions p ! i"
      using handleRegions_regions [OF h, of i] i r1 by (simp split: if_splits)
    have e: "End (region (regions p ! i)) (Rsp rg) (pieOffset p)
                 (tracer (snd (handleRegions rg [0..<i] p1 []))) = (curInterrupt (regions p' ! i), None)"
      if "curInterrupt (regions p ! i) = Rip rg" "state (regions p ! i) = RegionStart"
    proof -
      have "distinct ([0..<i] @ i # [Suc i..<?n])" using split [symmetric] by simp
      from handleRegions_End [OF h [unfolded split] this] i that r1 show ?thesis by simp
    qed
    show ?thesis
    proof (cases "state (regions p ! i)")
      case RegionStart
      with g e show ?thesis by (auto split: if_splits)
    next
      case RegionEnd
      with g show ?thesis by (auto split: if_splits)
    next
      case RegionOther
      with g show ?thesis by (auto split: if_splits)
    qed
  qed
  from ev len each show ?thesis by blast
qed



lemma handleInterrupt_attachedShared:
  "fst (handleInterrupt attachedShared) =
     ([\<lparr>Id_e = 0, State_e = RegionStart\<rparr>, \<lparr>Id_e = 1, State_e = RegionStart\<rparr>], None) \<and>
   map state (regions (snd (handleInterrupt attachedShared))) = [RegionEnd, RegionEnd] \<and>
   map curInterrupt (regions (snd (handleInterrupt attachedShared))) = [0x401040, 0x401080] \<and>
   dom (breakpoints (snd (handleInterrupt attachedShared))) = {0x401080, 0x401040}"
  by (simp add: eval_defs attachedShared_def armedTracer_def exTracer_def addrRegion_def)

theorem handleInterrupt_events_witness:
  "Rip (fst (rewind attachedShared)) = 0x401000 \<and>
   fst (handleInterrupt attachedShared) =
     ([\<lparr>Id_e = 0, State_e = RegionStart\<rparr>, \<lparr>Id_e = 1, State_e = RegionStart\<rparr>], None) \<and>
   map (\<lambda>r. \<lparr>Id_e = id_r r, State_e = state r\<rparr>)
       (filter (\<lambda>r. curInterrupt r = 0x401000) (regions attachedShared)) =
     [\<lparr>Id_e = 0, State_e = RegionStart\<rparr>, \<lparr>Id_e = 1, State_e = RegionStart\<rparr>] \<and>
   map state (regions (snd (handleInterrupt attachedShared))) = [RegionEnd, RegionEnd] \<and>
   map curInterrupt (regions (snd (handleInterrupt attachedShared))) = [0x401040, 0x401080] \<and>
   dom (breakpoints (snd (handleInterrupt attachedShared))) = {0x401080, 0x401040}"
proof -
  have h: "handleInterrupt attachedShared =
      (([\<lparr>Id_e = 0, State_e = RegionStart\<rparr>, \<lparr>Id_e = 1, State_e = RegionStart\<rparr>], None),
       snd (handleInterrupt attachedShared))"
    using handleInterrupt_attachedShared by (simp add: prod_eq_iff)
  have r: "Rip (fst (rewind attachedShared)) = 0x401000"
    by (simp add: eval_defs attachedShared_def armedTracer_def exTracer_def)
  from handleInterrupt_events [OF surjective_pairing surjective_pairing h]
    handleInterrupt_attachedShared r
  show ?thesis by simp
qed

section \<open>Failure of the End function\<close>


lemma upt_split: "i < n \<Longrightarrow> [0..<n] = [0..<i] @ i # [Suc i..<n]"
proof -
  assume i: "i < n"
  have "[0..<i + (n - i)] = [0..<i] @ [i..<i + (n - i)]"
    by (rule upt_add_eq_append) simp
  with i show ?thesis by (simp add: upt_conv_Cons)
qed

lemma handleRegions_skip:
  "\<forall>i \<in> set is. curInterrupt (regions p ! i) \<noteq> Rip rg \<Longrightarrow>
     handleRegions rg is p evs = ((evs, None), p)"
  by (induction "is") (simp_all add: Let_def)

text \<open>
  C6. A region at index \<open>i\<close> is in state Start, armed at the trap address,
  the regions before it have been handled without error, and its End function fails with
  \<open>e\<close>. Then \<open>handleInterrupt\<close> returns no events together with \<open>e\<close>. The region is
  left in state End with its armed-address field still the trap address; nothing has been
  armed for it: the table is the one the earlier regions left, that is the old table
  without the trap address plus the addresses the earlier regions re-armed, and when the
  region is the first one armed at the trap address the table is exactly the old one
  without the trap address.
\<close>

theorem handleInterrupt_End_fails:
  assumes rw: "rewind p = (rg, p0)" and rb: "removeBreak p0 (Rip rg) = (None, p1)"
    and i: "i < length (regions p)"
    and pre: "handleRegions rg [0..<i] p1 [] = ((evs, None), p2)"
    and m: "curInterrupt (regions p ! i) = Rip rg"
    and s: "state (regions p ! i) = RegionStart"
    and e: "End (region (regions p ! i)) (Rsp rg) (pieOffset p) (tracer p2) = (a, Some e)"
  shows "fst (handleInterrupt p) = ([], Some e) \<and>
         state (regions (snd (handleInterrupt p)) ! i) = RegionEnd \<and>
         curInterrupt (regions (snd (handleInterrupt p)) ! i) = Rip rg \<and>
         breakpoints (snd (handleInterrupt p)) = breakpoints p2 \<and>
         dom (breakpoints (snd (handleInterrupt p))) =
           (dom (breakpoints p) - {Rip rg}) \<union>
           {curInterrupt (regions (snd (handleInterrupt p)) ! j) | j.
              j < i \<and> curInterrupt (regions p ! j) = Rip rg} \<and>
         ((\<forall>j < i. curInterrupt (regions p ! j) \<noteq> Rip rg) \<longrightarrow>
            breakpoints (snd (handleInterrupt p)) = (breakpoints p)(Rip rg := None))"
proof -
  note rf = rewind_frame [OF rw]
  note bf = removeBreak_frame [OF rb]
  note bo = removeBreak_ok [OF rb]
  let ?n = "length (regions p)"
  have r1: "regions p1 = regions p" "pieOffset p1 = pieOffset p" using rf bf by simp_all
  note pf = handleRegions_frame [OF pre]
  have r2: "regions p2 ! i = regions p ! i" "pieOffset p2 = pieOffset p"
    "length (regions p2) = ?n"
    using pf r1 by simp_all
  let ?q = "p2\<lparr>regions := (regions p2)[i := (regions p2 ! i)\<lparr>state := RegionEnd\<rparr>]\<rparr>"
  have ra: "rearm rg i p2 = (Some e, ?q)"
    using s e r2 by (simp add: rearm_def Let_def)
  have "handleInterrupt p = handleRegions rg ([0..<i] @ i # [Suc i..<?n]) p1 []"
    using rw rb r1 upt_split [OF i] by (simp add: handleInterrupt_def)
  also have "\<dots> = (([], Some e), ?q)"
    using pre ra m r2 by (simp add: handleRegions_append Let_def)
  finally have h: "handleInterrupt p = (([], Some e), ?q)" .
  have d2: "dom (breakpoints p2) =
       dom (breakpoints p1) \<union>
       {curInterrupt (regions p2 ! j) | j. j \<in> set [0..<i] \<and> curInterrupt (regions p1 ! j) = Rip rg}"
    using handleRegions_table [OF pre] i r1 by simp
  have q: "\<And>j. j < i \<Longrightarrow> regions ?q ! j = regions p2 ! j" by simp
  have dq: "dom (breakpoints ?q) =
           (dom (breakpoints p) - {Rip rg}) \<union>
           {curInterrupt (regions ?q ! j) | j. j < i \<and> curInterrupt (regions p ! j) = Rip rg}"
    using d2 bo rf r1 by auto
  have first: "breakpoints ?q = (breakpoints p)(Rip rg := None)"
    if "\<forall>j < i. curInterrupt (regions p ! j) \<noteq> Rip rg"
  proof -
    from that r1 have "handleRegions rg [0..<i] p1 [] = (([], None), p1)"
      by (intro handleRegions_skip) simp
    with pre have "p2 = p1" by simp
    with bo rf show ?thesis by simp
  qed
  show ?thesis
    unfolding h using r2 i m dq first by simp
qed



lemma rewind_attached:
  "rewind (attached r) =
     (\<lparr>Rip = 0x401000, Rsp = 0x7000\<rparr>,
      (attached r)\<lparr>tracer := armedTracer\<lparr>regs := \<lparr>Rip = 0x401000, Rsp = 0x7000\<rparr>,
               issued := issued armedTracer @ [OpGetRegs, OpSetRegs \<lparr>Rip = 0x401000, Rsp = 0x7000\<rparr>]\<rparr>\<rparr>)"
  by (simp add: rewind_def attached_def armedTracer_def exTracer_def GetRegs_def SetRegs_def
      next_fault_def issue_def zeroRegs_def interrupt_def Let_def)

theorem handleInterrupt_End_fails_counterexample:
  "state (regions (attached (failRegion 0x1000)) ! 0) = RegionStart \<and>
   curInterrupt (regions (attached (failRegion 0x1000)) ! 0) =
     Rip (fst (rewind (attached (failRegion 0x1000)))) \<and>
   snd (End (region (regions (attached (failRegion 0x1000)) ! 0)) 0x7000 0x400000
          (tracer (attached (failRegion 0x1000)))) = Some RegionEndUnresolved \<and>
   fst (handleInterrupt (attached (failRegion 0x1000))) = ([], Some RegionEndUnresolved) \<and>
   \<lparr>Id_e = 0, State_e = RegionStart\<rparr> \<notin> set (fst (fst (handleInterrupt (attached (failRegion 0x1000)))))"
  by (simp add: eval_defs attached_def armedTracer_def exTracer_def failRegion_def)

theorem handleInterrupt_End_fails_witness:
  "fst (handleInterrupt (attached (failRegion 0x1000))) = ([], Some RegionEndUnresolved) \<and>
   state (regions (snd (handleInterrupt (attached (failRegion 0x1000)))) ! 0) = RegionEnd \<and>
   curInterrupt (regions (snd (handleInterrupt (attached (failRegion 0x1000)))) ! 0) = 0x401000 \<and>
   breakpoints (snd (handleInterrupt (attached (failRegion 0x1000)))) = Map.empty"
proof -
  let ?p = "attached (failRegion 0x1000)"
  let ?rg = "fst (rewind ?p)"
  let ?p1 = "snd (removeBreak (snd (rewind ?p)) (Rip ?rg))"
  have rg: "?rg = \<lparr>Rip = 0x401000, Rsp = 0x7000\<rparr>" by (simp add: rewind_attached)
  have rb: "removeBreak (snd (rewind ?p)) (Rip ?rg) = (None, ?p1)"
    by (simp add: prod_eq_iff rewind_attached)
       (simp add: attached_def removeBreak_def PokeData_def next_fault_def issue_def
          armedTracer_def exTracer_def)
  have i: "0 < length (regions ?p)" by (simp add: attached_def)
  have pre: "handleRegions ?rg [0..<0] ?p1 [] = (([], None), ?p1)" by simp
  have m: "curInterrupt (regions ?p ! 0) = Rip ?rg" by (simp add: rg) (simp add: attached_def)
  have s: "state (regions ?p ! 0) = RegionStart" by (simp add: attached_def)
  have e: "End (region (regions ?p ! 0)) (Rsp ?rg) (pieOffset ?p) (tracer ?p1) =
             (0, Some RegionEndUnresolved)"
    by (simp add: attached_def failRegion_def)
  have b: "(breakpoints ?p)(Rip ?rg := None) = Map.empty"
    by (simp add: rg) (simp add: attached_def)
  note t = handleInterrupt_End_fails [OF surjective_pairing rb i pre m s e]
  from t have c1: "fst (handleInterrupt ?p) = ([], Some RegionEndUnresolved)"
    by (elim conjE)
  from t have c2: "state (regions (snd (handleInterrupt ?p)) ! 0) = RegionEnd"
    by (elim conjE)
  from t have c3: "curInterrupt (regions (snd (handleInterrupt ?p)) ! 0) = Rip ?rg"
    by (elim conjE)
  from t have "(\<forall>j < 0. curInterrupt (regions ?p ! j) \<noteq> Rip ?rg) \<longrightarrow>
      breakpoints (snd (handleInterrupt ?p)) = (breakpoints ?p)(Rip ?rg := None)"
    by (elim conjE)
  then have c4: "breakpoints (snd (handleInterrupt ?p)) = Map.empty"
    using b by simp
  from c1 c2 c3 c4 rg show ?thesis by simp
qed

section \<open>Construction\<close>


lemma setBreak_ops:
  "setBreak p a = (err, p') \<Longrightarrow>
     \<exists>ops. issued (tracer p') = issued (tracer p) @ ops \<and>
           (\<forall>op \<in> set ops. opAddr op = Some a \<and> a \<notin> dom (breakpoints p))"
  by (auto simp: setBreak_def PeekData_def PokeData_def issue_def
      split: option.splits prod.splits)

lemma setBreak_value:
  "setBreak p a = (None, p') \<Longrightarrow> b \<noteq> a \<Longrightarrow> breakpoints p' b = breakpoints p b"
  by (auto simp: setBreak_def split: option.splits prod.splits)

lemma attachRegions_Cons_ok:
  assumes h: "attachRegions breaks ((i, r) # irs) p = Inr p'"
    and inv: "\<forall>a \<in> dom (breakpoints p) \<inter> dom breaks. breakpoints p a = breaks a"
  shows "\<exists>p2 ops1. attachRegions breaks irs p2 = Inr p' \<and>
     pieOffset p2 = pieOffset p \<and> exited p2 = exited p \<and>
     regions p2 = regions p @ [newRegion (pieOffset p) (i, r)] \<and>
     dom (breakpoints p2) = insert (Start r (pieOffset p)) (dom (breakpoints p)) \<and>
     (\<forall>a \<in> dom (breakpoints p2) \<inter> dom breaks. breakpoints p2 a = breaks a) \<and>
     issued (tracer p2) = issued (tracer p) @ ops1 \<and>
     (\<forall>op \<in> set ops1. opAddr op = Some (Start r (pieOffset p)) \<and>
        Start r (pieOffset p) \<notin> dom breaks)"
proof (cases "breaks (Start r (pieOffset p))")
  case (Some orig)
  let ?a = "Start r (pieOffset p)"
  let ?p2 = "p\<lparr>breakpoints := (breakpoints p)(?a \<mapsto> orig),
              regions := regions p @ [newRegion (pieOffset p) (i, r)]\<rparr>"
  from h Some have "attachRegions breaks irs ?p2 = Inr p'"
    by (simp add: Let_def newRegion_def)
  moreover have "\<forall>a \<in> dom (breakpoints ?p2) \<inter> dom breaks. breakpoints ?p2 a = breaks a"
    using inv Some by auto
  moreover have "issued (tracer ?p2) = issued (tracer p) @ []" by simp
  moreover have "dom (breakpoints ?p2) = insert ?a (dom (breakpoints p))" by simp
  ultimately show ?thesis
    by (intro exI [of _ ?p2] exI [of _ "[]"]) simp
next
  case None
  let ?a = "Start r (pieOffset p)"
  obtain err p1 where sb: "setBreak p ?a = (err, p1)" by (cases "setBreak p ?a")
  with h None have err: "err = None"
    by (auto simp: Let_def split: option.splits)
  note f = setBreak_frame [OF sb]
  note ok = setBreak_ok [OF sb [unfolded err]]
  note v = setBreak_value [OF sb [unfolded err]]
  obtain ops1 where ops1: "issued (tracer p1) = issued (tracer p) @ ops1"
    "\<forall>op \<in> set ops1. opAddr op = Some ?a"
    using setBreak_ops [OF sb] by auto
  let ?p2 = "p1\<lparr>regions := regions p1 @ [newRegion (pieOffset p) (i, r)]\<rparr>"
  from h None sb err f have a: "attachRegions breaks irs ?p2 = Inr p'"
    by (simp add: Let_def newRegion_def)
  have b: "\<forall>a \<in> dom (breakpoints ?p2) \<inter> dom breaks. breakpoints ?p2 a = breaks a"
  proof
    fix a assume a: "a \<in> dom (breakpoints ?p2) \<inter> dom breaks"
    with None have "a \<noteq> ?a" by auto
    with a ok v [of a] inv show "breakpoints ?p2 a = breaks a" by auto
  qed
  have c: "\<forall>op \<in> set ops1. opAddr op = Some ?a \<and> ?a \<notin> dom breaks"
    using ops1(2) None by auto
  have d: "dom (breakpoints ?p2) = insert ?a (dom (breakpoints p))" using ok by simp
  have e: "pieOffset ?p2 = pieOffset p" "exited ?p2 = exited p"
    "regions ?p2 = regions p @ [newRegion (pieOffset p) (i, r)]"
    "issued (tracer ?p2) = issued (tracer p) @ ops1"
    using f ops1(1) by simp_all
  from a b c d e show ?thesis by blast
qed

lemma attachRegions_ok:
  "attachRegions breaks irs p = Inr p' \<Longrightarrow>
   \<forall>a \<in> dom (breakpoints p) \<inter> dom breaks. breakpoints p a = breaks a \<Longrightarrow>
     pieOffset p' = pieOffset p \<and> exited p' = exited p \<and>
     regions p' = regions p @ map (newRegion (pieOffset p)) irs \<and>
     dom (breakpoints p') = dom (breakpoints p) \<union> startAddrs (pieOffset p) (map snd irs) \<and>
     (\<forall>a \<in> dom (breakpoints p') \<inter> dom breaks. breakpoints p' a = breaks a) \<and>
     (\<exists>ops. issued (tracer p') = issued (tracer p) @ ops \<and>
        (\<forall>op \<in> set ops. \<exists>a. opAddr op = Some a \<and>
            a \<in> startAddrs (pieOffset p) (map snd irs) \<and> a \<notin> dom breaks))"
proof (induction irs arbitrary: p)
  case Nil
  then show ?case by (simp add: startAddrs_def)
next
  case (Cons ir irs)
  obtain i r where ir: "ir = (i, r)" by (cases ir)
  let ?a = "Start r (pieOffset p)"
  from attachRegions_Cons_ok [OF Cons.prems(1) [unfolded ir] Cons.prems(2)]
  obtain p2 ops1 where
    h: "attachRegions breaks irs p2 = Inr p'"
    and f: "pieOffset p2 = pieOffset p" "exited p2 = exited p"
      "regions p2 = regions p @ [newRegion (pieOffset p) (i, r)]"
      "dom (breakpoints p2) = insert ?a (dom (breakpoints p))"
    and inv: "\<forall>a \<in> dom (breakpoints p2) \<inter> dom breaks. breakpoints p2 a = breaks a"
    and o1: "issued (tracer p2) = issued (tracer p) @ ops1"
      "\<forall>op \<in> set ops1. opAddr op = Some ?a \<and> ?a \<notin> dom breaks"
    by blast
  note IH = Cons.IH [OF h inv]
  from IH obtain ops2 where
    o2: "issued (tracer p') = issued (tracer p2) @ ops2"
      "\<forall>op \<in> set ops2. \<exists>a. opAddr op = Some a \<and>
            a \<in> startAddrs (pieOffset p2) (map snd irs) \<and> a \<notin> dom breaks"
    by blast
  have sub: "startAddrs (pieOffset p) (map snd irs) \<subseteq>
             startAddrs (pieOffset p) (map snd (ir # irs))"
    and mem: "?a \<in> startAddrs (pieOffset p) (map snd (ir # irs))"
    by (auto simp: startAddrs_def ir)
  have "issued (tracer p') = issued (tracer p) @ (ops1 @ ops2)"
    using o1(1) o2(1) by simp
  moreover have "\<forall>op \<in> set (ops1 @ ops2). \<exists>a. opAddr op = Some a \<and>
            a \<in> startAddrs (pieOffset p) (map snd (ir # irs)) \<and> a \<notin> dom breaks"
  proof
    fix op assume "op \<in> set (ops1 @ ops2)"
    then consider "op \<in> set ops1" | "op \<in> set ops2" by auto
    then show "\<exists>a. opAddr op = Some a \<and>
            a \<in> startAddrs (pieOffset p) (map snd (ir # irs)) \<and> a \<notin> dom breaks"
    proof cases
      case 1
      with o1(2) mem show ?thesis by blast
    next
      case 2
      with o2(2) sub show ?thesis unfolding f(1) by blast
    qed
  qed
  ultimately have ops: "\<exists>ops. issued (tracer p') = issued (tracer p) @ ops \<and>
        (\<forall>op \<in> set ops. \<exists>a. opAddr op = Some a \<and>
            a \<in> startAddrs (pieOffset p) (map snd (ir # irs)) \<and> a \<notin> dom breaks)"
    by blast
  have d: "dom (breakpoints p') =
        dom (breakpoints p) \<union> startAddrs (pieOffset p) (map snd (ir # irs))"
    using IH f ir by (auto simp: startAddrs_def)
  have r: "regions p' = regions p @ map (newRegion (pieOffset p)) (ir # irs)"
    using IH f ir by simp
  have "pieOffset p' = pieOffset p" "exited p' = exited p"
    "\<forall>a \<in> dom (breakpoints p') \<inter> dom breaks. breakpoints p' a = breaks a"
    using IH f by simp_all
  with ops d r show ?case by simp
qed



lemma attachRegions_inherited:
  "startAddrs (pieOffset p) (map snd irs) \<subseteq> dom breaks \<Longrightarrow>
     \<exists>p'. attachRegions breaks irs p = Inr p' \<and> tracer p' = tracer p \<and>
          breakpoints p' = (\<lambda>a. if a \<in> startAddrs (pieOffset p) (map snd irs)
                                 then breaks a else breakpoints p a)"
proof (induction irs arbitrary: p)
  case Nil
  then show ?case by (simp add: startAddrs_def)
next
  case (Cons ir irs)
  obtain i r where ir: "ir = (i, r)" by (cases ir)
  let ?a = "Start r (pieOffset p)"
  from Cons.prems ir obtain orig where orig: "breaks ?a = Some orig"
    by (auto simp: startAddrs_def)
  let ?p2 = "p\<lparr>breakpoints := (breakpoints p)(?a \<mapsto> orig),
              regions := regions p @ [newRegion (pieOffset p) (i, r)]\<rparr>"
  have step: "attachRegions breaks (ir # irs) p = attachRegions breaks irs ?p2"
    using orig ir by (simp add: Let_def newRegion_def)
  have "startAddrs (pieOffset ?p2) (map snd irs) \<subseteq> dom breaks"
    using Cons.prems by (auto simp: startAddrs_def)
  from Cons.IH [OF this] obtain p' where
    p': "attachRegions breaks irs ?p2 = Inr p'" "tracer p' = tracer ?p2"
      "breakpoints p' = (\<lambda>a. if a \<in> startAddrs (pieOffset ?p2) (map snd irs)
                                 then breaks a else breakpoints ?p2 a)"
    by blast
  have "breakpoints p' = (\<lambda>a. if a \<in> startAddrs (pieOffset p) (map snd (ir # irs))
                                 then breaks a else breakpoints p a)"
    unfolding p'(3) using orig ir by (auto simp: startAddrs_def fun_eq_iff)
  with step p'(1,2) show ?case by simp
qed

text \<open>
  C7. \<open>newTracedProc\<close> looks the inherited map up at the regions' Start
  addresses only. When every region's Start address is a key of the inherited map,
  construction succeeds, the tracer handle is untouched (no peek, no poke), and the table
  is the inherited map restricted to the Start addresses; it is the inherited map itself
  when, in addition, every key of the map is a Start address. In general the keys of the
  table are the Start addresses, the entries at Start addresses found in the inherited map
  are copies of the inherited ones, and tracer operations are issued (by \<open>setBreak\<close>) only
  at Start addresses absent from the map.
\<close>

theorem newTracedProc_inherited:
  "(startAddrs off rs \<subseteq> dom breaks \<longrightarrow>
      (\<exists>q. newTracedProc (off, None) t rs breaks = Inr q \<and> tracer q = t \<and>
           breakpoints q = breaks |` startAddrs off rs \<and>
           (dom breaks \<subseteq> startAddrs off rs \<longrightarrow> breakpoints q = breaks))) \<and>
   (newTracedProc (off, None) t rs breaks = Inr p \<longrightarrow>
      dom (breakpoints p) = startAddrs off rs \<and>
      (\<forall>a \<in> startAddrs off rs \<inter> dom breaks. breakpoints p a = breaks a) \<and>
      (\<exists>ops. issued (tracer p) = issued t @ ops \<and>
         (\<forall>op \<in> set ops. \<exists>a. opAddr op = Some a \<and> a \<in> startAddrs off rs \<and> a \<notin> dom breaks)))"
proof (intro conjI impI)
  let ?p0 = "\<lparr>tracer = t, regions = [], pieOffset = off, exited = False,
              breakpoints = Map.empty\<rparr>"
  assume sub: "startAddrs off rs \<subseteq> dom breaks"
  then have "startAddrs (pieOffset ?p0) (map snd (enumerate 0 rs)) \<subseteq> dom breaks"
    by simp
  from attachRegions_inherited [OF this] obtain q where
    q0: "attachRegions breaks (map (\<lambda>x. x) (enumerate 0 rs)) ?p0 = Inr q" "tracer q = tracer ?p0"
      "breakpoints q = (\<lambda>a. if a \<in> startAddrs (pieOffset ?p0) (map snd (enumerate 0 rs))
                                 then breaks a else breakpoints ?p0 a)"
    by auto
  have q: "attachRegions breaks (enumerate 0 rs) ?p0 = Inr q" "tracer q = t"
      "breakpoints q = (\<lambda>a. if a \<in> startAddrs off rs then breaks a else None)"
    using q0 by (simp_all cong: if_cong)
  have r: "breakpoints q = breaks |` startAddrs off rs"
    using q(3) by (simp add: restrict_map_def)
  have "breakpoints q = breaks" if d: "dom breaks \<subseteq> startAddrs off rs"
  proof (rule ext)
    fix a
    show "breakpoints q a = breaks a"
    proof (cases "a \<in> startAddrs off rs")
      case True
      then show ?thesis by (simp add: q(3))
    next
      case False
      with d have "a \<notin> dom breaks" by blast
      with False show ?thesis by (simp add: q(3) domIff)
    qed
  qed
  with q r show "\<exists>q. newTracedProc (off, None) t rs breaks = Inr q \<and> tracer q = t \<and>
           breakpoints q = breaks |` startAddrs off rs \<and>
           (dom breaks \<subseteq> startAddrs off rs \<longrightarrow> breakpoints q = breaks)"
    by (simp add: newTracedProc_def)
next
  let ?p0 = "\<lparr>tracer = t, regions = [], pieOffset = off, exited = False,
              breakpoints = Map.empty\<rparr>"
  assume "newTracedProc (off, None) t rs breaks = Inr p"
  then have h: "attachRegions breaks (enumerate 0 rs) ?p0 = Inr p"
    by (simp add: newTracedProc_def)
  have "\<forall>a \<in> dom (breakpoints ?p0) \<inter> dom breaks. breakpoints ?p0 a = breaks a" by simp
  note ok = attachRegions_ok [OF h this]
  from ok show "dom (breakpoints p) = startAddrs off rs"
    by simp
  from ok show "\<forall>a \<in> startAddrs off rs \<inter> dom breaks. breakpoints p a = breaks a"
    by simp
  from ok show "\<exists>ops. issued (tracer p) = issued t @ ops \<and>
         (\<forall>op \<in> set ops. \<exists>a. opAddr op = Some a \<and> a \<in> startAddrs off rs \<and> a \<notin> dom breaks)"
    by simp
qed

lemma newTracedProc_inheritedProc:
  "newTracedProc (0x400000, None) exTracer [addrRegion 0x1000 0x1040] [0x401000 \<mapsto> [0x48]]
     = Inr inheritedProc"
  by (simp add: newTracedProc_def inheritedProc_def addrRegion_def Let_def)

theorem newTracedProc_inherited_counterexample:
  "(case newTracedProc (0x400000, None) exTracer [addrRegion 0x1000 0x1040]
          [0x401040 \<mapsto> [0x90]] of
      Inl e \<Rightarrow> False
    | Inr p \<Rightarrow> breakpoints p \<noteq> [0x401040 \<mapsto> [0x90]] \<and>
               breakpoints p 0x401040 = None \<and> breakpoints p 0x401000 = Some [0x90] \<and>
               issued (tracer p) = [OpPeek 0x401000 1, OpPoke 0x401000 [0xCC]])"
  by (simp add: newTracedProc_def addrRegion_def Let_def setBreak_def PeekData_def PokeData_def
      next_fault_def issue_def interrupt_def read_bytes_def exTracer_def fun_eq_iff)
     (rule exI [of _ "0x401040"], simp)

theorem newTracedProc_inherited_witness:
  "startAddrs 0x400000 [addrRegion 0x1000 0x1040] \<subseteq> dom [0x401000 \<mapsto> [0x48::byte]] \<and>
   dom [0x401000 \<mapsto> [0x48::byte]] \<subseteq> startAddrs 0x400000 [addrRegion 0x1000 0x1040] \<and>
   newTracedProc (0x400000, None) exTracer [addrRegion 0x1000 0x1040] [0x401000 \<mapsto> [0x48]]
     = Inr inheritedProc \<and>
   tracer inheritedProc = exTracer \<and>
   breakpoints inheritedProc = [0x401000 \<mapsto> [0x48]] \<and>
   dom (breakpoints inheritedProc) = startAddrs 0x400000 [addrRegion 0x1000 0x1040] \<and>
   issued (tracer inheritedProc) = issued exTracer"
proof -
  have s1: "startAddrs 0x400000 [addrRegion 0x1000 0x1040] \<subseteq> dom [0x401000 \<mapsto> [0x48::byte]]"
    and s2: "dom [0x401000 \<mapsto> [0x48::byte]] \<subseteq> startAddrs 0x400000 [addrRegion 0x1000 0x1040]"
    and s3: "dom (breakpoints inheritedProc) = startAddrs 0x400000 [addrRegion 0x1000 0x1040]"
    by (simp_all add: startAddrs_def addrRegion_def inheritedProc_def)
  have s4: "tracer inheritedProc = exTracer" "breakpoints inheritedProc = [0x401000 \<mapsto> [0x48]]"
    by (simp_all add: inheritedProc_def)
  from newTracedProc_inherited [of "0x400000" "[addrRegion 0x1000 0x1040]"
      "[0x401000 \<mapsto> [0x48]]" exTracer inheritedProc]
    newTracedProc_inheritedProc s1 s2 s3 s4
  show ?thesis by simp
qed

section \<open>Invariants over sequences of traps\<close>


lemma newTracedProc_regions:
  assumes "newTracedProc pie t rs breaks = Inr p"
  shows "regions p = map (newRegion (pieOffset p)) (enumerate 0 rs) \<and>
         dom (breakpoints p) = startAddrs (pieOffset p) rs"
proof -
  obtain off where pie: "pie = (off, None)"
    using assms by (cases pie) (auto simp: newTracedProc_def split: option.splits)
  let ?p0 = "\<lparr>tracer = t, regions = [], pieOffset = off, exited = False,
              breakpoints = Map.empty\<rparr>"
  from assms pie have h: "attachRegions breaks (enumerate 0 rs) ?p0 = Inr p"
    by (simp add: newTracedProc_def)
  have "\<forall>a \<in> dom (breakpoints ?p0) \<inter> dom breaks. breakpoints ?p0 a = breaks a" by simp
  from attachRegions_ok [OF h this] show ?thesis by simp
qed

lemma newTracedProc_inv:
  assumes "newTracedProc pie t rs breaks = Inr p"
  shows "idsOk p \<and> armedOk p \<and> length (regions p) = length rs \<and>
         (\<forall>j < length rs. state (regions p ! j) = RegionStart)"
proof -
  note r = newTracedProc_regions [OF assms]
  have "idsOk p" using r by (simp add: idsOk_def newRegion_def nth_enumerate_eq)
  moreover have "armedOk p"
  proof -
    have "curInterrupt ` set (regions p) = (\<lambda>r. Start r (pieOffset p)) ` set (map snd (enumerate 0 rs))"
      using r by (simp add: newRegion_def image_image del: map_snd_enumerate)
    then show ?thesis using r by (simp add: armedOk_def startAddrs_def)
  qed
  moreover have "length (regions p) = length rs" using r by simp
  moreover have "\<forall>j < length rs. state (regions p ! j) = RegionStart"
    using r by (simp add: newRegion_def)
  ultimately show ?thesis by simp
qed

lemma handleInterrupt_ok:
  assumes h: "handleInterrupt p = ((evs, None), p')"
  obtains rg p1 where
    "Rip rg \<in> dom (breakpoints p)"
    "regions p1 = regions p" "breakpoints p1 = (breakpoints p)(Rip rg := None)"
    "handleRegions rg [0..<length (regions p)] p1 [] = ((evs, None), p')"
proof -
  obtain rg p0 where rw: "rewind p = (rg, p0)" by (cases "rewind p")
  obtain err p1 where rb: "removeBreak p0 (Rip rg) = (err, p1)"
    by (cases "removeBreak p0 (Rip rg)")
  note rf = rewind_frame [OF rw]
  note bf = removeBreak_frame [OF rb]
  from h rw rb have err: "err = None"
    and l: "handleRegions rg [0..<length (regions p1)] p1 [] = ((evs, None), p')"
    by (auto simp: handleInterrupt_def split: option.splits)
  from removeBreak_ok [OF rb [unfolded err]] rf bf l
  show ?thesis by (intro that [of rg p1]) simp_all
qed




lemma armedOk_tracer [simp]: "armedOk (p\<lparr>tracer := t\<rparr>) = armedOk p"
  by (simp add: armedOk_def)

lemma idsOk_tracer [simp]: "idsOk (p\<lparr>tracer := t\<rparr>) = idsOk p"
  by (simp add: idsOk_def)

lemma handleTraps_Cons_ok:
  "handleTraps p (f # fs) = ((evs, None), p') \<Longrightarrow>
     \<exists>evs1 p1 evs2. handleInterrupt (p\<lparr>tracer := f (tracer p)\<rparr>) = ((evs1, None), p1) \<and>
        handleTraps p1 fs = ((evs2, None), p') \<and> evs = evs1 @ evs2"
  by (auto split: prod.splits option.splits)



lemma filter_eq_index:
  "filter (\<lambda>j. j = i \<and> P j) [0..<n] = (if i < n \<and> P i then [i] else [])"
  by (induction n) auto

lemma statesOf_append: "statesOf i (xs @ ys) = statesOf i xs @ statesOf i ys"
  by (simp add: statesOf_def)

lemma handleInterrupt_states:
  assumes h: "handleInterrupt p = ((evs, None), p')" and ids: "idsOk p"
  shows "idsOk p' \<and> length (regions p') = length (regions p) \<and>
         (statesOf i evs = [] \<and> (i < length (regions p) \<longrightarrow>
             state (regions p' ! i) = state (regions p ! i))
          \<or> i < length (regions p) \<and> statesOf i evs = [state (regions p ! i)] \<and>
            state (regions p' ! i) = complement (state (regions p ! i)))"
proof -
  from h obtain rg p1 where
    r1: "regions p1 = regions p"
    and l: "handleRegions rg [0..<length (regions p)] p1 [] = ((evs, None), p')"
    by (rule handleInterrupt_ok)
  let ?n = "length (regions p)"
  let ?m = "\<lambda>j. curInterrupt (regions p ! j) = Rip rg"
  have len: "length (regions p') = ?n" using handleRegions_frame [OF l] r1 by simp
  have each: "if ?m j
      then id_r (regions p' ! j) = id_r (regions p ! j) \<and>
           state (regions p' ! j) = complement (state (regions p ! j))
      else regions p' ! j = regions p ! j" if "j < ?n" for j
    using handleRegions_regions [OF l, of j] that r1 by (auto split: if_splits)
  have ids': "idsOk p'"
    unfolding idsOk_def len
  proof (intro allI impI)
    fix j assume j: "j < ?n"
    with ids have "id_r (regions p ! j) = j" by (simp add: idsOk_def)
    with each [OF j] show "id_r (regions p' ! j) = j" by (auto split: if_splits)
  qed
  have evs: "evs = map (\<lambda>j. eventOf (regions p ! j)) (filter ?m [0..<?n])"
    using handleRegions_events [OF l] r1 by simp
  have "statesOf i evs =
        map (\<lambda>j. state (regions p ! j))
            (filter (\<lambda>j. Id_e (eventOf (regions p ! j)) = i) (filter ?m [0..<?n]))"
    unfolding evs statesOf_def by (simp add: filter_map comp_def eventOf_def)
  also have "filter (\<lambda>j. Id_e (eventOf (regions p ! j)) = i) (filter ?m [0..<?n])
           = filter (\<lambda>j. j = i \<and> ?m j) [0..<?n]"
    using ids by (auto simp: idsOk_def eventOf_def intro!: filter_cong)
  also have "\<dots> = (if i < ?n \<and> ?m i then [i] else [])" by (rule filter_eq_index)
  finally have st: "statesOf i evs = (if i < ?n \<and> ?m i then [state (regions p ! i)] else [])"
    by simp
  show ?thesis
  proof (cases "i < ?n \<and> ?m i")
    case True
    with st each [of i] ids' len show ?thesis by simp
  next
    case False
    with st each [of i] ids' len show ?thesis by (auto split: if_splits)
  qed
qed

lemma handleRegions_error:
  "handleRegions rg is p evs0 = ((evs, Some e), p') \<Longrightarrow> evs = []"
  by (induction "is" arbitrary: p evs0)
     (auto simp: Let_def split: if_splits prod.splits option.splits)

lemma handleInterrupt_error:
  "handleInterrupt p = ((evs, Some e), p') \<Longrightarrow> evs = []"
  by (auto simp: handleInterrupt_def dest: handleRegions_error
      split: prod.splits option.splits)

lemma handleTraps_alternates:
  "handleTraps p fs = ((evs, err), p') \<Longrightarrow> idsOk p \<Longrightarrow>
     (if i < length (regions p) then alternates (state (regions p ! i)) (statesOf i evs)
      else statesOf i evs = [])"
proof (induction fs arbitrary: p evs)
  case Nil
  then show ?case by (simp add: statesOf_def)
next
  case (Cons f fs)
  let ?q = "p\<lparr>tracer := f (tracer p)\<rparr>"
  obtain evs1 e1 p1 where h: "handleInterrupt ?q = ((evs1, e1), p1)"
    by (cases "handleInterrupt ?q") auto
  show ?case
  proof (cases e1)
    case (Some e)
    have "evs1 = []" using handleInterrupt_error [OF h [unfolded Some]] .
    with Cons.prems(1) h Some show ?thesis by (simp add: statesOf_def)
  next
    case None
    obtain evs2 e2 p2 where t: "handleTraps p1 fs = ((evs2, e2), p2)"
      by (cases "handleTraps p1 fs") auto
    with Cons.prems(1) h None have evs: "evs = evs1 @ evs2" and e2: "e2 = err" "p2 = p'"
      by simp_all
    have q: "idsOk ?q" using Cons.prems(2) by simp
    note s = handleInterrupt_states [OF h [unfolded None] q, of i]
    from s have ids1: "idsOk p1" and len: "length (regions p1) = length (regions p)"
      by simp_all
    note IH = Cons.IH [OF t [unfolded e2] ids1]
    from s IH len show ?thesis
      unfolding evs statesOf_append by (auto split: if_splits)
  qed
qed



text \<open>
  C3. From construction onward, over any sequence of traps each handled without error
  (that is, up to the first trap whose \<open>handleInterrupt\<close> returns an error), the states
  of the events returned for one region id alternate \<open>Start, End, Start, End, \<dots>\<close>
  beginning with \<open>Start\<close>. Past an error the alternation is not kept: a trap whose
  handling fails returns no events, also for the regions it has already moved on.
\<close>

theorem event_states_alternate:
  assumes "newTracedProc pie t rs breaks = Inr p"
    and "handleTraps p fs = ((evs, err), p')"
  shows "alternates RegionStart (statesOf i evs)"
proof -
  note inv = newTracedProc_inv [OF assms(1)]
  then have ids: "idsOk p" by simp
  show ?thesis
  proof (cases "i < length (regions p)")
    case True
    with inv have "state (regions p ! i) = RegionStart" by simp
    with handleTraps_alternates [OF assms(2) ids, of i] True show ?thesis by simp
  next
    case False
    with handleTraps_alternates [OF assms(2) ids, of i] show ?thesis by simp
  qed
qed

lemma newTracedProc_attached:
  "newTracedProc (0x400000, None) exTracer [addrRegion 0x1000 0x1040] Map.empty
     = Inr (attached (addrRegion 0x1000 0x1040))"
  by (simp add: newTracedProc_def attached_def armedTracer_def exTracer_def addrRegion_def
      Let_def setBreak_def PeekData_def PokeData_def next_fault_def issue_def interrupt_def
      read_bytes_def)


lemma handleTraps_attached:
  "fst (handleTraps (attached (addrRegion 0x1000 0x1040))
         [stopAfter 0x401000, stopAfter 0x401040, stopAfter 0x401000]) =
     ([\<lparr>Id_e = 0, State_e = RegionStart\<rparr>, \<lparr>Id_e = 0, State_e = RegionEnd\<rparr>,
       \<lparr>Id_e = 0, State_e = RegionStart\<rparr>], None)"
  by (simp add: eval_defs attached_def armedTracer_def exTracer_def addrRegion_def stopAfter_def
      split: prod.splits)

theorem event_states_alternate_witness:
  "newTracedProc (0x400000, None) exTracer [addrRegion 0x1000 0x1040] Map.empty
     = Inr (attached (addrRegion 0x1000 0x1040)) \<and>
   fst (handleTraps (attached (addrRegion 0x1000 0x1040))
         [stopAfter 0x401000, stopAfter 0x401040, stopAfter 0x401000]) =
     ([\<lparr>Id_e = 0, State_e = RegionStart\<rparr>, \<lparr>Id_e = 0, State_e = RegionEnd\<rparr>,
       \<lparr>Id_e = 0, State_e = RegionStart\<rparr>], None) \<and>
   statesOf 0 [\<lparr>Id_e = 0, State_e = RegionStart\<rparr>, \<lparr>Id_e = 0, State_e = RegionEnd\<rparr>,
       \<lparr>Id_e = 0, State_e = RegionStart\<rparr>] = [RegionStart, RegionEnd, RegionStart] \<and>
   alternates RegionStart [RegionStart, RegionEnd, RegionStart]"
proof -
  let ?fs = "[stopAfter 0x401000, stopAfter 0x401040, stopAfter 0x401000]"
  let ?evs = "[\<lparr>Id_e = 0, State_e = RegionStart\<rparr>, \<lparr>Id_e = 0, State_e = RegionEnd\<rparr>,
       \<lparr>Id_e = 0, State_e = RegionStart\<rparr>]"
  have h: "handleTraps (attached (addrRegion 0x1000 0x1040)) ?fs =
      ((?evs, None), snd (handleTraps (attached (addrRegion 0x1000 0x1040)) ?fs))"
    using handleTraps_attached by (simp add: prod_eq_iff)
  have s: "statesOf 0 ?evs = [RegionStart, RegionEnd, RegionStart]"
    by (simp add: statesOf_def)
  from event_states_alternate [OF newTracedProc_attached h, of 0]
    newTracedProc_attached handleTraps_attached s
  show ?thesis by simp
qed

text \<open>
  Alternation past an error fails. With two regions sharing the Start address
  \<open>0x401000\<close>, the second with a failing End function: the trap at \<open>0x401000\<close> moves
  region 0 to End, arms \<open>0x401040\<close> and then returns no events with the error of region 1;
  the next trap, at \<open>0x401040\<close>, returns the End event of region 0. The first event ever
  returned for id 0 is an End event.
\<close>

lemma newTracedProc_attachedMixed:
  "newTracedProc (0x400000, None) exTracer [addrRegion 0x1000 0x1040, failRegion 0x1000]
     Map.empty = Inr attachedMixed"
  by (simp add: newTracedProc_def attachedMixed_def armedTracer_def exTracer_def addrRegion_def
      failRegion_def Let_def setBreak_def PeekData_def PokeData_def next_fault_def issue_def
      interrupt_def read_bytes_def)

lemma handleInterrupt_attachedMixed:
  "fst (handleInterrupt (attachedMixed\<lparr>tracer := stopAfter 0x401000 (tracer attachedMixed)\<rparr>))
     = ([], Some RegionEndUnresolved)"
  by (simp add: eval_defs attachedMixed_def armedTracer_def exTracer_def addrRegion_def
      failRegion_def stopAfter_def)

lemma handleAllTraps_attachedMixed:
  "fst (handleAllTraps attachedMixed [stopAfter 0x401000, stopAfter 0x401040])
     = [\<lparr>Id_e = 0, State_e = RegionEnd\<rparr>]"
  by (simp add: eval_defs attachedMixed_def armedTracer_def exTracer_def addrRegion_def
      failRegion_def stopAfter_def split: prod.splits)

theorem event_states_alternate_counterexample:
  "newTracedProc (0x400000, None) exTracer [addrRegion 0x1000 0x1040, failRegion 0x1000]
     Map.empty = Inr attachedMixed \<and>
   fst (handleInterrupt (attachedMixed\<lparr>tracer := stopAfter 0x401000 (tracer attachedMixed)\<rparr>))
     = ([], Some RegionEndUnresolved) \<and>
   fst (handleAllTraps attachedMixed [stopAfter 0x401000, stopAfter 0x401040])
     = [\<lparr>Id_e = 0, State_e = RegionEnd\<rparr>] \<and>
   statesOf 0 (fst (handleAllTraps attachedMixed [stopAfter 0x401000, stopAfter 0x401040]))
     = [RegionEnd] \<and>
   \<not> alternates RegionStart
       (statesOf 0 (fst (handleAllTraps attachedMixed [stopAfter 0x401000, stopAfter 0x401040])))"
  by (simp add: newTracedProc_attachedMixed handleInterrupt_attachedMixed
      handleAllTraps_attachedMixed statesOf_def del: handleAllTraps.simps)

text \<open>On a sequence of traps all handled without error the two supervisors agree.\<close>

lemma handleAllTraps_no_error:
  "handleTraps p fs = ((evs, None), p') \<Longrightarrow> handleAllTraps p fs = (evs, p')"
proof (induction fs arbitrary: p evs)
  case Nil
  then show ?case by simp
next
  case (Cons f fs)
  from handleTraps_Cons_ok [OF Cons.prems] obtain evs1 p1 evs2 where
    h: "handleInterrupt (p\<lparr>tracer := f (tracer p)\<rparr>) = ((evs1, None), p1)"
    and t: "handleTraps p1 fs = ((evs2, None), p')" and e: "evs = evs1 @ evs2"
    by blast
  from Cons.IH [OF t] h e show ?case by simp
qed



end
